theory Spec2Isabelle
  imports Main "HOL-Library.Multiset" "HOL-Library.List_Lexorder" "HOL-Library.Char_ord"
begin

section \<open>Data model (models.go)\<close>

text \<open>
  A shallow embedding of the todo engine of \<^verbatim>\<open>cli-todo\<close>.

  Modelling decisions, each visible in the definitions below:
  \<^item> Go's \<^verbatim>\<open>int\<close> identifiers are HOL integers. The only arithmetic the program does on
    them is \<^verbatim>\<open>tl.NextID++\<close> and \<^verbatim>\<open>todoList.NextID - 1\<close>; both are written with the 64-bit
    two's complement wrap-around \<open>int_wrap\<close>.
  \<^item> A \<^verbatim>\<open>time.Time\<close> is the instant it denotes, in nanoseconds since the Unix epoch;
    \<^verbatim>\<open>Before\<close> and \<^verbatim>\<open>After\<close> are \<open><\<close> and \<open>>\<close> on instants. The clock reading of
    \<^verbatim>\<open>time.Now()\<close> is an argument.
  \<^item> A \<^verbatim>\<open>*time.Time\<close> is a \<open>time option\<close>; a slice is a list (a nil slice and an empty
    slice are both \<open>[]\<close>); a string is a list of bytes.
  \<^item> A method with a pointer receiver returns the receiver's new value next to its
    result. \<^verbatim>\<open>PrintUserMessage\<close> calls are returned as a list of \<open>message\<close> values, one
    constructor per format string; the log (\<^verbatim>\<open>LogError\<close>, \<^verbatim>\<open>LogWarning\<close>, \<^verbatim>\<open>LogInfo\<close>) is
    not modelled.
  \<^item> The Go standard library is not part of the repository. \<^verbatim>\<open>sort.Slice\<close>, the Unicode
    case tables behind \<^verbatim>\<open>strings.ToLower\<close>, \<^verbatim>\<open>os.ReadFile\<close>, \<^verbatim>\<open>os.IsNotExist\<close> and
    \<^verbatim>\<open>json.Unmarshal\<close> are parameters of the functions that call them.
\<close>

type_synonym time = int

type_synonym PriorityLevel = string

definition PriorityHigh :: PriorityLevel where
  "PriorityHigh = ''high''"

definition PriorityMedium :: PriorityLevel where
  "PriorityMedium = ''medium''"

definition PriorityLow :: PriorityLevel where
  "PriorityLow = ''low''"

definition priorityMap :: "(string \<times> PriorityLevel) list" where
  "priorityMap = [(''high'', PriorityHigh), (''medium'', PriorityMedium), (''low'', PriorityLow)]"

record Todo =
  ID :: int
  Task :: string
  Completed :: bool
  CreatedAt :: time
  Priority :: PriorityLevel
  DueDate :: "time option"
  Tags :: "string list"

record TodoList =
  Todos :: "Todo list"
  NextID :: int

datatype error = NotFound int

datatype message =
    MsgAdded int string
  | MsgCompleted int string
  | MsgUncompleted int string
  | MsgDeleted int string
  | MsgCleared nat
  | MsgNoCompletedToClear
  | MsgEdited int string string
  | MsgUsageAdd
  | MsgInvalidDueDate
  | MsgError error
  | MsgClearCancelled
  | MsgDeletionCancelled int
  | MsgNoTasksFound string
  | MsgTasksMatching string
  | MsgNoTodosFound
  | MsgYourTodos "Todo list"
  | MsgUndidAdd int string
  | MsgUndidComplete int
  | MsgUndidDelete int int string
  | MsgCannotUndoDelete
  | MsgUndidUncomplete int
  | MsgUndoFailed error
  | MsgNoActionToUndo

text \<open>Go's \<^verbatim>\<open>int\<close> on a 64-bit target: the value an arithmetic result wraps to.\<close>

definition int_wrap :: "int \<Rightarrow> int" where
  "int_wrap n = (n + 2 ^ 63) mod 2 ^ 64 - 2 ^ 63"

subsection \<open>Strings\<close>

definition asciiLower :: "char \<Rightarrow> char" where
  "asciiLower c =
     (if CHR ''A'' \<le> c \<and> c \<le> CHR ''Z'' then char_of (of_char c + (32::nat)) else c)"

text \<open>
  \<^verbatim>\<open>strings.ToLower\<close>: a string of ASCII bytes has its letters \<^verbatim>\<open>A\<close>..\<^verbatim>\<open>Z\<close> lowered byte by
  byte; any other string goes through the Unicode tables, the parameter \<open>ulow\<close>.
\<close>

definition ToLower :: "(string \<Rightarrow> string) \<Rightarrow> string \<Rightarrow> string" where
  "ToLower ulow s =
     (if list_all (\<lambda>c. of_char c < (128::nat)) s then map asciiLower s else ulow s)"

text \<open>\<^verbatim>\<open>strings.Contains\<close>: \<open>substr\<close> occurs in \<open>s\<close> as a contiguous run of bytes.\<close>

primrec Contains :: "string \<Rightarrow> string \<Rightarrow> bool" where
  "Contains [] substr = (substr = [])"
| "Contains (c # s) substr = (take (length substr) (c # s) = substr \<or> Contains s substr)"

subsection \<open>The collection\<close>

definition NewTodoList :: TodoList where
  "NewTodoList = \<lparr>Todos = [], NextID = 1\<rparr>"

definition isValidPriority :: "PriorityLevel \<Rightarrow> bool" where
  "isValidPriority p = (p = PriorityHigh \<or> p = PriorityMedium \<or> p = PriorityLow)"

definition toCanonicalPriority :: "(string \<Rightarrow> string) \<Rightarrow> PriorityLevel \<Rightarrow> PriorityLevel" where
  "toCanonicalPriority ulow p =
     (case map_of priorityMap (ToLower ulow p) of
        Some canonical \<Rightarrow> canonical
      | None \<Rightarrow> [])"

definition Add ::
  "(string \<Rightarrow> string) \<Rightarrow> time \<Rightarrow> string \<Rightarrow> PriorityLevel \<Rightarrow> time option \<Rightarrow> string list
     \<Rightarrow> TodoList \<Rightarrow> TodoList \<times> message list" where
  "Add ulow now task priority dueDate tags tdl =
     (let canonicalPriority = toCanonicalPriority ulow priority;
          canonicalPriority =
            (if \<not> isValidPriority canonicalPriority then PriorityMedium else canonicalPriority);
          todo = \<lparr>ID = NextID tdl, Task = task, Completed = False, CreatedAt = now,
                  Priority = canonicalPriority, DueDate = dueDate, Tags = tags\<rparr>
      in (tdl\<lparr>Todos := Todos tdl @ [todo], NextID := int_wrap (NextID tdl + 1)\<rparr>,
          [MsgAdded (ID todo) (Task todo)]))"

text \<open>
  The scan shared by \<^verbatim>\<open>Complete\<close>, \<^verbatim>\<open>Uncomplete\<close>, \<^verbatim>\<open>Delete\<close> and \<^verbatim>\<open>EditTask\<close>:
  \<^verbatim>\<open>for i := range tl.Todos { if tl.Todos[i].ID == id { ...; return } }\<close>.
  It yields the first index whose record has the identifier, or nothing.
\<close>

fun findID :: "int \<Rightarrow> Todo list \<Rightarrow> nat option" where
  "findID tid [] = None"
| "findID tid (todo # rest) =
     (if ID todo = tid then Some 0 else map_option Suc (findID tid rest))"

definition Complete :: "int \<Rightarrow> TodoList \<Rightarrow> error option \<times> TodoList \<times> message list" where
  "Complete tid tdl =
     (case findID tid (Todos tdl) of
        Some i \<Rightarrow>
          (let todos = (Todos tdl)[i := (Todos tdl ! i)\<lparr>Completed := True\<rparr>]
           in (None, tdl\<lparr>Todos := todos\<rparr>, [MsgCompleted (ID (todos ! i)) (Task (todos ! i))]))
      | None \<Rightarrow> (Some (NotFound tid), tdl, []))"

definition Uncomplete :: "int \<Rightarrow> TodoList \<Rightarrow> error option \<times> TodoList \<times> message list" where
  "Uncomplete tid tdl =
     (case findID tid (Todos tdl) of
        Some i \<Rightarrow>
          (let todos = (Todos tdl)[i := (Todos tdl ! i)\<lparr>Completed := False\<rparr>]
           in (None, tdl\<lparr>Todos := todos\<rparr>, [MsgUncompleted (ID (todos ! i)) (Task (todos ! i))]))
      | None \<Rightarrow> (Some (NotFound tid), tdl, []))"

text \<open>
  \<^verbatim>\<open>Delete\<close> returns the removed record, or the error in place of \<^verbatim>\<open>Todo{}\<close>;
  \<^verbatim>\<open>append(tl.Todos[:i], tl.Todos[i+1:]...)\<close> is the list without position \<open>i\<close>.
\<close>

definition Delete :: "int \<Rightarrow> TodoList \<Rightarrow> (error + Todo) \<times> TodoList \<times> message list" where
  "Delete tid tdl =
     (case findID tid (Todos tdl) of
        Some i \<Rightarrow>
          (let todo = Todos tdl ! i
           in (Inr todo, tdl\<lparr>Todos := take i (Todos tdl) @ drop (i + 1) (Todos tdl)\<rparr>,
               [MsgDeleted (ID todo) (Task todo)]))
      | None \<Rightarrow> (Inl (NotFound tid), tdl, []))"

definition ClearCompleted :: "TodoList \<Rightarrow> TodoList \<times> message list" where
  "ClearCompleted tdl =
     (let activeTodos = filter (\<lambda>todo. \<not> Completed todo) (Todos tdl)
      in if length (Todos tdl) > length activeTodos
         then (tdl\<lparr>Todos := activeTodos\<rparr>, [MsgCleared (length (Todos tdl) - length activeTodos)])
         else (tdl, [MsgNoCompletedToClear]))"

definition EditTask :: "int \<Rightarrow> string \<Rightarrow> TodoList \<Rightarrow> error option \<times> TodoList \<times> message list" where
  "EditTask tid newTask tdl =
     (case findID tid (Todos tdl) of
        Some i \<Rightarrow>
          (let taskBefore = Task (Todos tdl ! i);
               todos = (Todos tdl)[i := (Todos tdl ! i)\<lparr>Task := newTask\<rparr>]
           in (None, tdl\<lparr>Todos := todos\<rparr>, [MsgEdited tid taskBefore newTask]))
      | None \<Rightarrow> (Some (NotFound tid), tdl, []))"

subsection \<open>Search\<close>

text \<open>The inner loop of \<^verbatim>\<open>SearchTasks\<close>: it stops at the first tag that contains the query.\<close>

fun anyTagContains :: "(string \<Rightarrow> string) \<Rightarrow> string list \<Rightarrow> string \<Rightarrow> bool" where
  "anyTagContains ulow [] lowerQuery = False"
| "anyTagContains ulow (tag # tags) lowerQuery =
     (if Contains (ToLower ulow tag) lowerQuery then True
      else anyTagContains ulow tags lowerQuery)"

text \<open>
  The outer loop, with the slice of matches built so far: a description match appends and
  moves on (\<^verbatim>\<open>continue\<close>), otherwise a tag match appends once (\<^verbatim>\<open>break\<close>).
\<close>

fun searchLoop :: "(string \<Rightarrow> string) \<Rightarrow> string \<Rightarrow> Todo list \<Rightarrow> Todo list \<Rightarrow> Todo list" where
  "searchLoop ulow lowerQuery [] matched = matched"
| "searchLoop ulow lowerQuery (todo # rest) matched =
     (if Contains (ToLower ulow (Task todo)) lowerQuery
      then searchLoop ulow lowerQuery rest (matched @ [todo])
      else if anyTagContains ulow (Tags todo) lowerQuery
      then searchLoop ulow lowerQuery rest (matched @ [todo])
      else searchLoop ulow lowerQuery rest matched)"

text \<open>\<^verbatim>\<open>SearchTasks\<close> returns the result collection and the receiver as the call leaves it.\<close>

definition SearchTasks :: "(string \<Rightarrow> string) \<Rightarrow> string \<Rightarrow> TodoList \<Rightarrow> TodoList \<times> TodoList" where
  "SearchTasks ulow query tdl =
     (let matchedTodos = NewTodoList;
          lowerQuery = ToLower ulow query
      in (matchedTodos\<lparr>Todos := searchLoop ulow lowerQuery (Todos tdl) (Todos matchedTodos)\<rparr>, tdl))"

text \<open>
  What \<^verbatim>\<open>SearchTasks\<close> looks for in a record: the lowered query inside the lowered
  description or inside one of the lowered tags.
\<close>

definition searchMatch :: "(string \<Rightarrow> string) \<Rightarrow> string \<Rightarrow> Todo \<Rightarrow> bool" where
  "searchMatch ulow query todo \<longleftrightarrow>
     Contains (ToLower ulow (Task todo)) (ToLower ulow query) \<or>
     (\<exists>tag \<in> set (Tags todo). Contains (ToLower ulow tag) (ToLower ulow query))"

subsection \<open>Listing\<close>

record ListOptions =
  FilterStatus :: string
  FilterPriority :: PriorityLevel
  FilterTags :: "string list"
  SortBy :: string
  SortOrder :: string

text \<open>
  The two nested tag loops of \<^verbatim>\<open>List\<close>: some filter tag equals some tag of the record
  once both are lowered.
\<close>

definition hasTag :: "(string \<Rightarrow> string) \<Rightarrow> string list \<Rightarrow> string list \<Rightarrow> bool" where
  "hasTag ulow filterTags todoTags =
     list_ex (\<lambda>filterTag. list_ex (\<lambda>todoTag. ToLower ulow filterTag = ToLower ulow todoTag) todoTags)
       filterTags"

text \<open>The body of the filter loop: \<^verbatim>\<open>match\<close> starts true and each active filter may clear it.\<close>

definition matchTodo :: "(string \<Rightarrow> string) \<Rightarrow> ListOptions \<Rightarrow> Todo \<Rightarrow> bool" where
  "matchTodo ulow options todo =
     (let match = True;
          match = (if FilterStatus options = ''completed'' \<and> \<not> Completed todo then False else match);
          match = (if FilterStatus options = ''incomplete'' \<and> Completed todo then False else match);
          canonicalFilterPriority = toCanonicalPriority ulow (FilterPriority options);
          match = (if canonicalFilterPriority \<noteq> [] \<and> Priority todo \<noteq> canonicalFilterPriority
                   then False else match);
          match = (if length (FilterTags options) > 0
                   then (if \<not> hasTag ulow (FilterTags options) (Tags todo) then False else match)
                   else match)
      in match)"

text \<open>The end of the comparison closure: \<^verbatim>\<open>if options.SortOrder == "desc" { return !less }\<close>.\<close>

definition direction :: "ListOptions \<Rightarrow> bool \<Rightarrow> bool" where
  "direction options lessResult = (if SortOrder options = ''desc'' then \<not> lessResult else lessResult)"

text \<open>
  The closure handed to \<^verbatim>\<open>sort.Slice\<close>, on the two records \<^verbatim>\<open>filteredTodos[i]\<close> and
  \<^verbatim>\<open>filteredTodos[j]\<close>. The \<^verbatim>\<open>due_date\<close> case returns from inside the switch, so the
  negation for \<^verbatim>\<open>desc\<close> never applies to it.
\<close>

definition lessTodo :: "(string \<Rightarrow> string) \<Rightarrow> ListOptions \<Rightarrow> Todo \<Rightarrow> Todo \<Rightarrow> bool" where
  "lessTodo ulow options a b =
     (if SortBy options = ''id'' then direction options (ID a < ID b)
      else if SortBy options = ''task''
        then direction options (ToLower ulow (Task a) < ToLower ulow (Task b))
      else if SortBy options = ''created_at'' then direction options (CreatedAt a < CreatedAt b)
      else if SortBy options = ''due_date'' then
        (if SortOrder options = ''desc'' then
           (case (DueDate a, DueDate b) of
              (None, None) \<Rightarrow> False
            | (None, Some db) \<Rightarrow> False
            | (Some da, None) \<Rightarrow> True
            | (Some da, Some db) \<Rightarrow> da > db)
         else
           (case (DueDate a, DueDate b) of
              (None, None) \<Rightarrow> False
            | (None, Some db) \<Rightarrow> False
            | (Some da, None) \<Rightarrow> True
            | (Some da, Some db) \<Rightarrow> da < db))
      else if SortBy options = ''priority''
        then direction options (ToLower ulow (Priority a) < ToLower ulow (Priority b))
      else direction options (ID a < ID b))"

text \<open>
  The slice \<^verbatim>\<open>filteredTodos\<close> as \<^verbatim>\<open>List\<close> prints it: the records that pass the filters,
  sorted by \<open>srt\<close> (the program's \<^verbatim>\<open>sort.Slice\<close>) when a sort key is given.
\<close>

definition listedTodos ::
  "((Todo \<Rightarrow> Todo \<Rightarrow> bool) \<Rightarrow> Todo list \<Rightarrow> Todo list) \<Rightarrow> (string \<Rightarrow> string) \<Rightarrow> ListOptions
     \<Rightarrow> TodoList \<Rightarrow> Todo list" where
  "listedTodos srt ulow options tdl =
     (let filteredTodos = filter (matchTodo ulow options) (Todos tdl)
      in if SortBy options \<noteq> [] then srt (lessTodo ulow options) filteredTodos
         else filteredTodos)"

text \<open>
  \<^verbatim>\<open>List\<close> prints a header and one line per record, in the order of the slice; the lines
  are kept as the records they render.
\<close>

definition ListTodos ::
  "((Todo \<Rightarrow> Todo \<Rightarrow> bool) \<Rightarrow> Todo list \<Rightarrow> Todo list) \<Rightarrow> (string \<Rightarrow> string) \<Rightarrow> ListOptions
     \<Rightarrow> TodoList \<Rightarrow> message list" where
  "ListTodos srt ulow options tdl =
     (let filteredTodos = listedTodos srt ulow options tdl
      in if length filteredTodos = 0 then [MsgNoTodosFound] else [MsgYourTodos filteredTodos])"

text \<open>
  Names for what the sort keys compare: whether a record has a due date, the date of a record
  that has one, and the lowered priority string.
\<close>

definition hasDueDate :: "Todo \<Rightarrow> bool" where
  "hasDueDate todo \<longleftrightarrow> DueDate todo \<noteq> None"

definition dueOf :: "Todo \<Rightarrow> time" where
  "dueOf todo = the (DueDate todo)"

definition priorityKey :: "(string \<Rightarrow> string) \<Rightarrow> Todo \<Rightarrow> string" where
  "priorityKey ulow todo = ToLower ulow (Priority todo)"

subsection \<open>What the program relies on from \<^verbatim>\<open>sort.Slice\<close>\<close>

text \<open>
  The requirement the \<^verbatim>\<open>sort\<close> package puts on its \<^verbatim>\<open>less\<close> argument \<open>lessFn\<close>: a transitive ordering, that is,
  \<open>lessFn\<close> is transitive and so is its negation.
\<close>

definition transitiveOrdering :: "('a \<Rightarrow> 'a \<Rightarrow> bool) \<Rightarrow> bool" where
  "transitiveOrdering lessFn \<longleftrightarrow>
     (\<forall>a b c. lessFn a b \<and> lessFn b c \<longrightarrow> lessFn a c) \<and>
     (\<forall>a b c. \<not> lessFn a b \<and> \<not> lessFn b c \<longrightarrow> \<not> lessFn a c)"

text \<open>\<open>a\<close> has to come before \<open>b\<close>: \<open>lessFn\<close> orders them, and one way only.\<close>

definition mustPrecede :: "('a \<Rightarrow> 'a \<Rightarrow> bool) \<Rightarrow> 'a \<Rightarrow> 'a \<Rightarrow> bool" where
  "mustPrecede lessFn a b \<longleftrightarrow> lessFn a b \<and> \<not> lessFn b a"

text \<open>
  A sorting routine in the sense of \<^verbatim>\<open>sort.Slice\<close>: for a transitive ordering the result
  is a rearrangement of the input in which no element stands after one it has to come
  before. Nothing is promised about elements that \<open>lessFn\<close> does not separate (the sort is
  not stable).
\<close>

definition sortsSlice :: "(('a \<Rightarrow> 'a \<Rightarrow> bool) \<Rightarrow> 'a list \<Rightarrow> 'a list) \<Rightarrow> bool" where
  "sortsSlice srt \<longleftrightarrow>
     (\<forall>lessFn xs. transitiveOrdering lessFn \<longrightarrow>
        mset (srt lessFn xs) = mset xs \<and>
        sorted_wrt (\<lambda>a b. \<not> mustPrecede lessFn b a) (srt lessFn xs))"

text \<open>
  One such routine, the insertion sort that \<^verbatim>\<open>sort.Slice\<close> runs on short slices:
  \<^verbatim>\<open>for j := i; j > a && less(data[j], data[j-1]); j-- { swap(j, j-1) }\<close>.
  \<open>bubbleLeft\<close> works on the sorted prefix in reverse, its last element first.
\<close>

fun bubbleLeft :: "('a \<Rightarrow> 'a \<Rightarrow> bool) \<Rightarrow> 'a \<Rightarrow> 'a list \<Rightarrow> 'a list" where
  "bubbleLeft lessFn x [] = [x]"
| "bubbleLeft lessFn x (y # ys) = (if lessFn x y then y # bubbleLeft lessFn x ys else x # y # ys)"

definition insertionSort :: "('a \<Rightarrow> 'a \<Rightarrow> bool) \<Rightarrow> 'a list \<Rightarrow> 'a list" where
  "insertionSort lessFn xs = rev (foldl (\<lambda>sortedPrefix x. bubbleLeft lessFn x sortedPrefix) [] xs)"

section \<open>The interactive session and its undo tracker (cli.go)\<close>

datatype ActionType = ActionNone | ActionAdd | ActionComplete | ActionDelete | ActionUncomplete

text \<open>The struct \<^verbatim>\<open>lastAction\<close>; its field \<^verbatim>\<open>ID\<close> is \<open>lastAction_ID\<close> here.\<close>

record lastAction =
  Type :: ActionType
  lastAction_ID :: int
  DeletedTodo :: "Todo option"
  PreviousCompletedStatus :: bool

text \<open>The state the loop of \<^verbatim>\<open>runInteractiveMode\<close> works on: the list and the global tracker.\<close>

record session =
  todoList :: TodoList
  lastActionState :: lastAction

definition noAction :: lastAction where
  "noAction = \<lparr>Type = ActionNone, lastAction_ID = 0, DeletedTodo = None,
               PreviousCompletedStatus = False\<rparr>"

definition newSession :: "TodoList \<Rightarrow> session" where
  "newSession tdl = \<lparr>todoList = tdl, lastActionState = noAction\<rparr>"

text \<open>
  What \<^verbatim>\<open>-d\<close> gave the \<^verbatim>\<open>add\<close> command: no date, a date \<^verbatim>\<open>parseDueDate\<close> accepted, or text
  it rejected.
\<close>

datatype dueArg = NoDueDate | DueDateOn time | DueDateInvalid

text \<open>
  A command line of the session after it has been split into fields and its numbers
  parsed, with what the environment answers while it runs: the clock reading for \<^verbatim>\<open>add\<close>,
  the reply to the confirmation prompt for \<^verbatim>\<open>delete\<close> and \<^verbatim>\<open>clear-completed\<close>.
\<close>

datatype command =
    CmdAdd string string dueArg "string list" time
  | CmdEdit int string
  | CmdClearCompleted bool
  | CmdSearch string
  | CmdComplete int
  | CmdUncomplete int
  | CmdDelete int bool
  | CmdList
  | CmdUndo

definition noOptions :: ListOptions where
  "noOptions = \<lparr>FilterStatus = [], FilterPriority = [], FilterTags = [], SortBy = [],
                SortOrder = []\<rparr>"

text \<open>The \<^verbatim>\<open>undo\<close> case: the switch on the tracked action, then the reset of the tracker.\<close>

definition undo :: "session \<Rightarrow> session \<times> message list" where
  "undo s =
     (let la = lastActionState s;
          (tdl, msgs) =
            (case Type la of
               ActionAdd \<Rightarrow>
                 (case Delete (lastAction_ID la) (todoList s) of
                    (Inl err, tdl, msgs) \<Rightarrow> (tdl, msgs @ [MsgUndoFailed err])
                  | (Inr deletedTodo, tdl, msgs) \<Rightarrow>
                      (tdl, msgs @ [MsgUndidAdd (lastAction_ID la) (Task deletedTodo)]))
             | ActionComplete \<Rightarrow>
                 (case Uncomplete (lastAction_ID la) (todoList s) of
                    (Some err, tdl, msgs) \<Rightarrow> (tdl, msgs @ [MsgUndoFailed err])
                  | (None, tdl, msgs) \<Rightarrow> (tdl, msgs @ [MsgUndidComplete (lastAction_ID la)]))
             | ActionDelete \<Rightarrow>
                 (case DeletedTodo la of
                    Some deletedTodo \<Rightarrow>
                      ((todoList s)\<lparr>Todos := Todos (todoList s) @ [deletedTodo]\<rparr>,
                       [MsgUndidDelete (lastAction_ID la) (ID deletedTodo) (Task deletedTodo)])
                  | None \<Rightarrow> (todoList s, [MsgCannotUndoDelete]))
             | ActionUncomplete \<Rightarrow>
                 (case Complete (lastAction_ID la) (todoList s) of
                    (Some err, tdl, msgs) \<Rightarrow> (tdl, msgs @ [MsgUndoFailed err])
                  | (None, tdl, msgs) \<Rightarrow> (tdl, msgs @ [MsgUndidUncomplete (lastAction_ID la)]))
             | ActionNone \<Rightarrow> (todoList s, [MsgNoActionToUndo]))
      in (\<lparr>todoList = tdl, lastActionState = noAction\<rparr>, msgs))"

text \<open>One turn of the loop of \<^verbatim>\<open>runInteractiveMode\<close>: the case of the command.\<close>

fun runCommand ::
  "((Todo \<Rightarrow> Todo \<Rightarrow> bool) \<Rightarrow> Todo list \<Rightarrow> Todo list) \<Rightarrow> (string \<Rightarrow> string) \<Rightarrow> command
     \<Rightarrow> session \<Rightarrow> session \<times> message list" where
  "runCommand srt ulow (CmdAdd task priority due tags now) s =
     (if task = [] then (s, [MsgUsageAdd])
      else if due = DueDateInvalid then (s, [MsgInvalidDueDate])
      else
        (let dueDate = (case due of DueDateOn parsedDate \<Rightarrow> Some parsedDate | _ \<Rightarrow> None);
             (tdl, msgs) =
               Add ulow now task (toCanonicalPriority ulow priority) dueDate tags (todoList s)
         in (\<lparr>todoList = tdl,
              lastActionState = \<lparr>Type = ActionAdd, lastAction_ID = int_wrap (NextID tdl - 1),
                                  DeletedTodo = None, PreviousCompletedStatus = False\<rparr>\<rparr>,
             msgs)))"
| "runCommand srt ulow (CmdEdit tid newTask) s =
     (case EditTask tid newTask (todoList s) of
        (Some err, tdl, msgs) \<Rightarrow> (s\<lparr>todoList := tdl\<rparr>, msgs @ [MsgError err])
      | (None, tdl, msgs) \<Rightarrow> (s\<lparr>todoList := tdl\<rparr>, msgs))"
| "runCommand srt ulow (CmdClearCompleted confirmed) s =
     (if confirmed
      then (let (tdl, msgs) = ClearCompleted (todoList s) in (s\<lparr>todoList := tdl\<rparr>, msgs))
      else (s, [MsgClearCancelled]))"
| "runCommand srt ulow (CmdSearch query) s =
     (let (results, tdl) = SearchTasks ulow query (todoList s)
      in if length (Todos results) = 0 then (s\<lparr>todoList := tdl\<rparr>, [MsgNoTasksFound query])
         else (s\<lparr>todoList := tdl\<rparr>, MsgTasksMatching query # ListTodos srt ulow noOptions results))"
| "runCommand srt ulow (CmdComplete tid) s =
     (case Complete tid (todoList s) of
        (Some err, tdl, msgs) \<Rightarrow> (s\<lparr>todoList := tdl\<rparr>, msgs @ [MsgError err])
      | (None, tdl, msgs) \<Rightarrow>
          (\<lparr>todoList = tdl,
            lastActionState = \<lparr>Type = ActionComplete, lastAction_ID = tid, DeletedTodo = None,
                                PreviousCompletedStatus = False\<rparr>\<rparr>,
           msgs))"
| "runCommand srt ulow (CmdUncomplete tid) s =
     (case Uncomplete tid (todoList s) of
        (Some err, tdl, msgs) \<Rightarrow> (s\<lparr>todoList := tdl\<rparr>, msgs @ [MsgError err])
      | (None, tdl, msgs) \<Rightarrow>
          (\<lparr>todoList = tdl,
            lastActionState = \<lparr>Type = ActionUncomplete, lastAction_ID = tid, DeletedTodo = None,
                                PreviousCompletedStatus = True\<rparr>\<rparr>,
           msgs))"
| "runCommand srt ulow (CmdDelete tid confirmed) s =
     (if confirmed
      then (case Delete tid (todoList s) of
              (Inl err, tdl, msgs) \<Rightarrow> (s\<lparr>todoList := tdl\<rparr>, msgs @ [MsgError err])
            | (Inr deletedTodo, tdl, msgs) \<Rightarrow>
                (\<lparr>todoList = tdl,
                  lastActionState = \<lparr>Type = ActionDelete, lastAction_ID = tid,
                                      DeletedTodo = Some deletedTodo,
                                      PreviousCompletedStatus = False\<rparr>\<rparr>,
                 msgs))
      else (s, [MsgDeletionCancelled tid]))"
| "runCommand srt ulow CmdList s = (s, ListTodos srt ulow noOptions (todoList s))"
| "runCommand srt ulow CmdUndo s = undo s"

text \<open>The loop itself, over the commands typed before \<^verbatim>\<open>exit\<close>; it yields the last state.\<close>

fun runInteractiveMode ::
  "((Todo \<Rightarrow> Todo \<Rightarrow> bool) \<Rightarrow> Todo list \<Rightarrow> Todo list) \<Rightarrow> (string \<Rightarrow> string) \<Rightarrow> command list
     \<Rightarrow> session \<Rightarrow> session" where
  "runInteractiveMode srt ulow [] s = s"
| "runInteractiveMode srt ulow (c # cs) s =
     runInteractiveMode srt ulow cs (fst (runCommand srt ulow c s))"

text \<open>The \<^verbatim>\<open>add\<close> commands of a session that reach \<^verbatim>\<open>todoList.Add\<close>.\<close>

fun reachesAdd :: "command \<Rightarrow> bool" where
  "reachesAdd (CmdAdd task priority due tags now) = (task \<noteq> [] \<and> due \<noteq> DueDateInvalid)"
| "reachesAdd _ = False"

text \<open>How many commands of a session reach \<^verbatim>\<open>todoList.Add\<close>.\<close>

definition addsIn :: "command list \<Rightarrow> nat" where
  "addsIn cmds = length (filter reachesAdd cmds)"

text \<open>
  The invariant of the session, on the identifiers of the list, the counter and the record
  the tracker holds: the counter is at least 1, the identifiers are pairwise different, positive
  and below the counter, and a record kept for undoing a delete has a positive identifier
  below the counter that no record of the list carries.
\<close>

definition idsOk :: "int list \<Rightarrow> int \<Rightarrow> Todo option \<Rightarrow> bool" where
  "idsOk ids next deleted \<longleftrightarrow>
     1 \<le> next \<and> distinct ids \<and> (\<forall>n \<in> set ids. 1 \<le> n \<and> n < next) \<and>
     (case deleted of
        None \<Rightarrow> True
      | Some d \<Rightarrow> ID d \<notin> set ids \<and> 1 \<le> ID d \<and> ID d < next)"

definition sessionInv :: "session \<Rightarrow> bool" where
  "sessionInv s \<longleftrightarrow>
     idsOk (map ID (Todos (todoList s))) (NextID (todoList s)) (DeletedTodo (lastActionState s))"

section \<open>Loading (models.go)\<close>

text \<open>
  \<^verbatim>\<open>LoadFromFile\<close> over its three library calls: \<open>ReadFile\<close> gives the bytes or an error,
  \<open>IsNotExist\<close> classifies the error, \<open>Unmarshal\<close> decodes into the list it is handed and
  gives an error or none. The result is the error, wrapped, or the list.
\<close>

datatype ('e, 'd) loadError = FailedToLoad 'e | FailedToParse 'd

definition LoadFromFile ::
  "(string \<Rightarrow> 'e + string) \<Rightarrow> ('e \<Rightarrow> bool) \<Rightarrow> (string \<Rightarrow> TodoList \<Rightarrow> 'd option \<times> TodoList)
     \<Rightarrow> string \<Rightarrow> ('e, 'd) loadError + TodoList" where
  "LoadFromFile ReadFile IsNotExist Unmarshal filename =
     (case ReadFile filename of
        Inl err \<Rightarrow> (if IsNotExist err then Inr NewTodoList else Inl (FailedToLoad err))
      | Inr data \<Rightarrow>
          (case Unmarshal data NewTodoList of
             (Some err, decoded) \<Rightarrow> Inl (FailedToParse err)
           | (None, decoded) \<Rightarrow> Inr decoded))"

section \<open>Example data\<close>

definition exampleTodo :: "int \<Rightarrow> string \<Rightarrow> Todo" where
  "exampleTodo n task =
     \<lparr>ID = n, Task = task, Completed = False, CreatedAt = 0, Priority = PriorityMedium,
      DueDate = None, Tags = []\<rparr>"

definition exampleList :: TodoList where
  "exampleList =
     \<lparr>Todos = [exampleTodo 1 ''A'', exampleTodo 2 ''B'', exampleTodo 3 ''C''], NextID = 4\<rparr>"

definition searchExample :: TodoList where
  "searchExample =
     \<lparr>Todos =
        [(exampleTodo 1 ''Work on report'')\<lparr>Tags := [''work'', ''homework'']\<rparr>,
         (exampleTodo 2 ''Buy milk'')\<lparr>Tags := [''home'']\<rparr>,
         (exampleTodo 3 ''Call Bob'')\<lparr>Tags := [''WORK'']\<rparr>],
      NextID = 7\<rparr>"

text \<open>A file system with a missing file, an unreadable file and a file that is not JSON.\<close>

datatype exampleOsError = ENOENT | EACCES

definition exampleReadFile :: "string \<Rightarrow> exampleOsError + string" where
  "exampleReadFile filename =
     (if filename = ''todos.json'' then Inl ENOENT
      else if filename = ''secret.json'' then Inl EACCES
      else Inr ''{not json'')"

definition exampleUnmarshal :: "string \<Rightarrow> TodoList \<Rightarrow> string option \<times> TodoList" where
  "exampleUnmarshal data target =
     (if data = ''{not json'' then (Some ''invalid character'', target) else (None, target))"

text \<open>
  The session \<^verbatim>\<open>add Buy milk -p low\<close>, \<^verbatim>\<open>add Ship release -p high -d 2024-12-25 -t work,urgent\<close>,
  \<^verbatim>\<open>complete 1\<close>, with the two records it creates and the states it passes through. The due
  date is 2024-12-25T00:00:00Z.
\<close>

definition buyMilk :: "time \<Rightarrow> Todo" where
  "buyMilk now =
     \<lparr>ID = 1, Task = ''Buy milk'', Completed = False, CreatedAt = now, Priority = PriorityLow,
      DueDate = None, Tags = []\<rparr>"

definition shipRelease :: "time \<Rightarrow> Todo" where
  "shipRelease now =
     \<lparr>ID = 2, Task = ''Ship release'', Completed = False, CreatedAt = now,
      Priority = PriorityHigh, DueDate = Some 1735084800000000000,
      Tags = [''work'', ''urgent'']\<rparr>"

definition scenarioCommands :: "time \<Rightarrow> time \<Rightarrow> command list" where
  "scenarioCommands now1 now2 =
     [CmdAdd ''Buy milk'' ''low'' NoDueDate [] now1,
      CmdAdd ''Ship release'' ''high'' (DueDateOn 1735084800000000000) [''work'', ''urgent''] now2,
      CmdComplete 1]"

definition afterComplete :: "time \<Rightarrow> time \<Rightarrow> session" where
  "afterComplete now1 now2 =
     \<lparr>todoList = \<lparr>Todos = [(buyMilk now1)\<lparr>Completed := True\<rparr>, shipRelease now2], NextID = 3\<rparr>,
      lastActionState = \<lparr>Type = ActionComplete, lastAction_ID = 1, DeletedTodo = None,
                          PreviousCompletedStatus = False\<rparr>\<rparr>"

definition afterClear :: "time \<Rightarrow> session" where
  "afterClear now2 =
     \<lparr>todoList = \<lparr>Todos = [shipRelease now2], NextID = 3\<rparr>,
      lastActionState = \<lparr>Type = ActionComplete, lastAction_ID = 1, DeletedTodo = None,
                          PreviousCompletedStatus = False\<rparr>\<rparr>"

text \<open>The session \<^verbatim>\<open>add A\<close>, \<^verbatim>\<open>add B\<close>.\<close>

definition twoAdds :: "command list" where
  "twoAdds = [CmdAdd ''A'' [] NoDueDate [] 1700000000000000000,
              CmdAdd ''B'' [] NoDueDate [] 1700000060000000000]"

text \<open>A session with adds, deletes, an undo, a failed delete and a clear-completed.\<close>

definition exampleSession :: "command list" where
  "exampleSession =
     twoAdds @
     [CmdDelete 1 True, CmdUndo, CmdAdd ''C'' ''HIGH'' NoDueDate [] 1700000120000000000,
      CmdComplete 3, CmdDelete 2 True, CmdDelete 9 True, CmdClearCompleted True,
      CmdAdd ''D'' ''low'' NoDueDate [] 1700000180000000000, CmdEdit 4 ''E'']"

text \<open>
  The three records of the repository's list test, added out of order: B (low, due
  2024-01-02), A (high, due 2024-01-01), C (medium, no due date).
\<close>

definition taskBLow :: Todo where
  "taskBLow = \<lparr>ID = 1, Task = ''Task B Low'', Completed = False, CreatedAt = 1700000000000000000,
               Priority = PriorityLow, DueDate = Some 1704153600000000000, Tags = [''personal'']\<rparr>"

definition taskAHigh :: Todo where
  "taskAHigh = \<lparr>ID = 2, Task = ''Task A High'', Completed = False, CreatedAt = 1700000001000000000,
                Priority = PriorityHigh, DueDate = Some 1704067200000000000, Tags = [''work'']\<rparr>"

definition taskCMed :: Todo where
  "taskCMed = \<lparr>ID = 3, Task = ''Task C Med'', Completed = False, CreatedAt = 1700000002000000000,
               Priority = PriorityMedium, DueDate = None, Tags = [''personal'', ''urgent'']\<rparr>"

definition sortExample :: TodoList where
  "sortExample = \<lparr>Todos = [taskCMed, taskBLow, taskAHigh], NextID = 4\<rparr>"

text \<open>
  A list in which two records are due on the same day (2024-01-01), with an undated record
  between them.
\<close>

definition tieA :: Todo where
  "tieA = \<lparr>ID = 1, Task = ''A'', Completed = False, CreatedAt = 1700000000000000000,
           Priority = PriorityMedium, DueDate = Some 1704067200000000000, Tags = []\<rparr>"

definition tieU :: Todo where
  "tieU = \<lparr>ID = 2, Task = ''U'', Completed = False, CreatedAt = 1700000001000000000,
           Priority = PriorityMedium, DueDate = None, Tags = []\<rparr>"

definition tieB :: Todo where
  "tieB = \<lparr>ID = 3, Task = ''B'', Completed = False, CreatedAt = 1700000002000000000,
           Priority = PriorityMedium, DueDate = Some 1704067200000000000, Tags = []\<rparr>"

definition tieExample :: TodoList where
  "tieExample = \<lparr>Todos = [tieA, tieU, tieB], NextID = 4\<rparr>"

section \<open>Facts about the scan\<close>

lemma findID_None: "findID tid ts = None \<longleftrightarrow> tid \<notin> ID ` set ts"
  by (induction ts) auto

lemma findID_Some:
  "findID tid ts = Some i \<Longrightarrow>
     i < length ts \<and> ID (ts ! i) = tid \<and> (\<forall>t \<in> set (take i ts). ID t \<noteq> tid)"
proof (induction ts arbitrary: i)
  case Nil
  then show ?case by simp
next
  case (Cons t ts)
  show ?case
  proof (cases "ID t = tid")
    case True
    with Cons.prems show ?thesis by simp
  next
    case False
    with Cons.prems obtain j where j: "findID tid ts = Some j" "i = Suc j"
      by auto
    from Cons.IH [OF j(1)] False j(2) show ?thesis by simp
  qed
qed

lemma findID_split:
  assumes "findID tid ts = Some i"
  shows "ts = take i ts @ (ts ! i) # drop (Suc i) ts"
  using findID_Some [OF assms] by (simp add: id_take_nth_drop)

section \<open>Delete and EditTask\<close>

lemma Delete_found:
  assumes "findID tid (Todos tdl) = Some i"
  shows "Delete tid tdl =
           (Inr (Todos tdl ! i),
            tdl\<lparr>Todos := take i (Todos tdl) @ drop (Suc i) (Todos tdl)\<rparr>,
            [MsgDeleted tid (Task (Todos tdl ! i))])"
  using assms findID_Some [OF assms] by (simp add: Delete_def Let_def)

lemma Delete_not_found:
  assumes "findID tid (Todos tdl) = None"
  shows "Delete tid tdl = (Inl (NotFound tid), tdl, [])"
  using assms by (simp add: Delete_def)

text \<open>
  Claim C5. If some record has identifier \<open>tid\<close>, the collection is \<open>xs @ t # ys\<close> with \<open>t\<close>
  the first record carrying \<open>tid\<close>; \<open>Delete tid\<close> returns \<open>t\<close> and leaves \<open>xs @ ys\<close>, so
  exactly that one record is gone and the others keep their relative order (the counter is
  untouched). If no record has identifier \<open>tid\<close>, \<open>Delete tid\<close> returns the collection as
  it was, records and counter, and reports \<open>NotFound\<close>.
\<close>

theorem Delete_removes_exactly_one:
  "if tid \<in> ID ` set (Todos tdl)
   then \<exists>xs t ys. Todos tdl = xs @ t # ys \<and> ID t = tid \<and> tid \<notin> ID ` set xs \<and>
          Delete tid tdl = (Inr t, tdl\<lparr>Todos := xs @ ys\<rparr>, [MsgDeleted tid (Task t)])
   else Delete tid tdl = (Inl (NotFound tid), tdl, [])"
proof (cases "findID tid (Todos tdl)")
  case None
  then show ?thesis
    using Delete_not_found [OF None] by (simp add: findID_None)
next
  case (Some i)
  let ?ts = "Todos tdl"
  have mem: "tid \<in> ID ` set ?ts"
    using Some findID_None [of tid ?ts] by simp
  have split: "?ts = take i ?ts @ (?ts ! i) # drop (Suc i) ?ts"
    by (rule findID_split [OF Some])
  have first: "ID (?ts ! i) = tid" "tid \<notin> ID ` set (take i ?ts)"
    using findID_Some [OF Some] by auto
  have "\<exists>xs t ys. ?ts = xs @ t # ys \<and> ID t = tid \<and> tid \<notin> ID ` set xs \<and>
          Delete tid tdl = (Inr t, tdl\<lparr>Todos := xs @ ys\<rparr>, [MsgDeleted tid (Task t)])"
    using split first Delete_found [OF Some] by blast
  with mem show ?thesis by simp
qed

theorem Delete_removes_exactly_one_witness:
  "2 \<in> ID ` set (Todos exampleList) \<and>
   Delete 2 exampleList =
     (Inr (exampleTodo 2 ''B''),
      exampleList\<lparr>Todos := [exampleTodo 1 ''A'', exampleTodo 3 ''C'']\<rparr>,
      [MsgDeleted 2 ''B'']) \<and>
   9 \<notin> ID ` set (Todos exampleList) \<and>
   Delete 9 exampleList = (Inl (NotFound 9), exampleList, [])"
  using Delete_removes_exactly_one [of 2 exampleList]
        Delete_removes_exactly_one [of 9 exampleList]
  by (simp add: exampleList_def exampleTodo_def Delete_def)

lemma EditTask_found:
  assumes "findID tid (Todos tdl) = Some i"
  shows "EditTask tid newTask tdl =
           (None, tdl\<lparr>Todos := (Todos tdl)[i := (Todos tdl ! i)\<lparr>Task := newTask\<rparr>]\<rparr>,
            [MsgEdited tid (Task (Todos tdl ! i)) newTask])"
  using assms by (simp add: EditTask_def Let_def)

lemma map_field_update:
  assumes "i < length ts" "f (g (ts ! i)) = f (ts ! i)"
  shows "map f (ts[i := g (ts ! i)]) = map f ts"
  using assms by (simp add: map_update list_update_same_conv)

text \<open>
  Claim C10. When a record has identifier \<open>tid\<close>, \<open>EditTask tid newTask\<close> succeeds for
  every \<open>newTask\<close> (the empty string too) and the collection it leaves differs from the old
  one in one position only, the first record carrying \<open>tid\<close>, whose \<open>Task\<close> is now
  \<open>newTask\<close>: the length, the order, the counter and the fields \<open>ID\<close>, \<open>Completed\<close>,
  \<open>CreatedAt\<close>, \<open>Priority\<close>, \<open>DueDate\<close> and \<open>Tags\<close> of every record are as before.
\<close>

theorem EditTask_changes_only_Task:
  assumes "tid \<in> ID ` set (Todos tdl)"
  shows "\<exists>i tdl' msgs.
           EditTask tid newTask tdl = (None, tdl', msgs) \<and>
           i < length (Todos tdl) \<and> ID (Todos tdl ! i) = tid \<and>
           Todos tdl' = (Todos tdl)[i := (Todos tdl ! i)\<lparr>Task := newTask\<rparr>] \<and>
           length (Todos tdl') = length (Todos tdl) \<and>
           NextID tdl' = NextID tdl \<and>
           map ID (Todos tdl') = map ID (Todos tdl) \<and>
           map Completed (Todos tdl') = map Completed (Todos tdl) \<and>
           map CreatedAt (Todos tdl') = map CreatedAt (Todos tdl) \<and>
           map Priority (Todos tdl') = map Priority (Todos tdl) \<and>
           map DueDate (Todos tdl') = map DueDate (Todos tdl) \<and>
           map Tags (Todos tdl') = map Tags (Todos tdl)"
proof -
  let ?ts = "Todos tdl"
  from assms obtain i where i: "findID tid ?ts = Some i"
    using findID_None [of tid ?ts] by (cases "findID tid ?ts") auto
  have lt: "i < length ?ts" and idi: "ID (?ts ! i) = tid"
    using findID_Some [OF i] by auto
  let ?tdl' = "tdl\<lparr>Todos := ?ts[i := (?ts ! i)\<lparr>Task := newTask\<rparr>]\<rparr>"
  have "EditTask tid newTask tdl = (None, ?tdl', [MsgEdited tid (Task (?ts ! i)) newTask])"
    by (rule EditTask_found [OF i])
  moreover have "map ID (Todos ?tdl') = map ID ?ts"
    using map_field_update [OF lt, of ID "\<lambda>t. t\<lparr>Task := newTask\<rparr>"] by simp
  moreover have "map Completed (Todos ?tdl') = map Completed ?ts"
    using map_field_update [OF lt, of Completed "\<lambda>t. t\<lparr>Task := newTask\<rparr>"] by simp
  moreover have "map CreatedAt (Todos ?tdl') = map CreatedAt ?ts"
    using map_field_update [OF lt, of CreatedAt "\<lambda>t. t\<lparr>Task := newTask\<rparr>"] by simp
  moreover have "map Priority (Todos ?tdl') = map Priority ?ts"
    using map_field_update [OF lt, of Priority "\<lambda>t. t\<lparr>Task := newTask\<rparr>"] by simp
  moreover have "map DueDate (Todos ?tdl') = map DueDate ?ts"
    using map_field_update [OF lt, of DueDate "\<lambda>t. t\<lparr>Task := newTask\<rparr>"] by simp
  moreover have "map Tags (Todos ?tdl') = map Tags ?ts"
    using map_field_update [OF lt, of Tags "\<lambda>t. t\<lparr>Task := newTask\<rparr>"] by simp
  ultimately have
    "EditTask tid newTask tdl = (None, ?tdl', [MsgEdited tid (Task (?ts ! i)) newTask]) \<and>
     i < length ?ts \<and> ID (?ts ! i) = tid \<and>
     Todos ?tdl' = ?ts[i := (?ts ! i)\<lparr>Task := newTask\<rparr>] \<and>
     length (Todos ?tdl') = length ?ts \<and>
     NextID ?tdl' = NextID tdl \<and>
     map ID (Todos ?tdl') = map ID ?ts \<and>
     map Completed (Todos ?tdl') = map Completed ?ts \<and>
     map CreatedAt (Todos ?tdl') = map CreatedAt ?ts \<and>
     map Priority (Todos ?tdl') = map Priority ?ts \<and>
     map DueDate (Todos ?tdl') = map DueDate ?ts \<and>
     map Tags (Todos ?tdl') = map Tags ?ts"
    using lt idi by simp
  then show ?thesis by blast
qed

theorem EditTask_changes_only_Task_witness:
  "2 \<in> ID ` set (Todos exampleList) \<and>
   EditTask 2 [] exampleList =
     (None,
      exampleList\<lparr>Todos := [exampleTodo 1 ''A'', exampleTodo 2 [], exampleTodo 3 ''C'']\<rparr>,
      [MsgEdited 2 ''B'' []])"
  using EditTask_changes_only_Task [of 2 exampleList "[]"]
  by (simp add: exampleList_def exampleTodo_def EditTask_def)

section \<open>SearchTasks\<close>

lemma anyTagContains_iff:
  "anyTagContains ulow tags q \<longleftrightarrow> (\<exists>tag \<in> set tags. Contains (ToLower ulow tag) q)"
  by (induction tags) auto

lemma searchLoop_filter:
  "searchLoop ulow (ToLower ulow query) ts matched = matched @ filter (searchMatch ulow query) ts"
  by (induction ts arbitrary: matched) (simp_all add: searchMatch_def anyTagContains_iff)

text \<open>
  Claim C9. \<open>SearchTasks\<close> hands the receiver back as it was, and its result holds the
  records of the source that match the query, each once per occurrence in the source and
  in the source's order (it is the source filtered by \<open>searchMatch\<close>, whether the
  description, a tag or both contain the query), with the counter 1 of a new list whatever
  the source's counter is.
\<close>

theorem SearchTasks_filters:
  "SearchTasks ulow query tdl =
     (\<lparr>Todos = filter (searchMatch ulow query) (Todos tdl), NextID = 1\<rparr>, tdl)"
  by (simp add: SearchTasks_def NewTodoList_def searchLoop_filter)

theorem SearchTasks_filters_witness:
  "SearchTasks (\<lambda>s. s) ''woRk'' searchExample =
     (\<lparr>Todos =
         [(exampleTodo 1 ''Work on report'')\<lparr>Tags := [''work'', ''homework'']\<rparr>,
          (exampleTodo 3 ''Call Bob'')\<lparr>Tags := [''WORK'']\<rparr>],
       NextID = 1\<rparr>, searchExample)"
proof -
  have "filter (searchMatch (\<lambda>s. s) ''woRk'') (Todos searchExample) =
         [(exampleTodo 1 ''Work on report'')\<lparr>Tags := [''work'', ''homework'']\<rparr>,
          (exampleTodo 3 ''Call Bob'')\<lparr>Tags := [''WORK'']\<rparr>]"
    by code_simp
  then show ?thesis
    using SearchTasks_filters [of "\<lambda>s. s" "''woRk''" searchExample] by simp
qed

section \<open>LoadFromFile\<close>

text \<open>
  Claim C7. When reading the file fails with an error that \<open>IsNotExist\<close> accepts,
  \<open>LoadFromFile\<close> returns the new empty list (no records, counter 1) and no error. When
  reading fails with any other error, or the bytes were read and decoding them reports an
  error, it returns an error and no list.
\<close>

theorem LoadFromFile_cases:
  "(\<forall>err. ReadFile filename = Inl err \<and> IsNotExist err \<longrightarrow>
       LoadFromFile ReadFile IsNotExist Unmarshal filename = Inr \<lparr>Todos = [], NextID = 1\<rparr>) \<and>
   (\<forall>err. ReadFile filename = Inl err \<and> \<not> IsNotExist err \<longrightarrow>
       LoadFromFile ReadFile IsNotExist Unmarshal filename = Inl (FailedToLoad err)) \<and>
   (\<forall>data err partial.
       ReadFile filename = Inr data \<and> Unmarshal data NewTodoList = (Some err, partial) \<longrightarrow>
       LoadFromFile ReadFile IsNotExist Unmarshal filename = Inl (FailedToParse err))"
  by (simp add: LoadFromFile_def NewTodoList_def)

theorem LoadFromFile_cases_witness:
  "LoadFromFile exampleReadFile (\<lambda>err. err = ENOENT) exampleUnmarshal ''todos.json'' =
     Inr \<lparr>Todos = [], NextID = 1\<rparr> \<and>
   LoadFromFile exampleReadFile (\<lambda>err. err = ENOENT) exampleUnmarshal ''secret.json'' =
     Inl (FailedToLoad EACCES) \<and>
   LoadFromFile exampleReadFile (\<lambda>err. err = ENOENT) exampleUnmarshal ''broken.json'' =
     Inl (FailedToParse ''invalid character'')"
  using LoadFromFile_cases [of exampleReadFile "''todos.json''" "\<lambda>err. err = ENOENT" exampleUnmarshal]
        LoadFromFile_cases [of exampleReadFile "''secret.json''" "\<lambda>err. err = ENOENT" exampleUnmarshal]
        LoadFromFile_cases [of exampleReadFile "''broken.json''" "\<lambda>err. err = ENOENT" exampleUnmarshal]
  by (simp add: exampleReadFile_def exampleUnmarshal_def NewTodoList_def)

section \<open>Evaluating the session\<close>

lemma canon_low: "toCanonicalPriority ulow ''low'' = ''low''"
  by code_simp

lemma canon_high: "toCanonicalPriority ulow ''high'' = ''high''"
  by code_simp

lemma canon_empty: "toCanonicalPriority ulow [] = []"
  by code_simp

lemma int_wrap_small: "- (2 ^ 63) \<le> n \<Longrightarrow> n < 2 ^ 63 \<Longrightarrow> int_wrap n = n"
  by (simp add: int_wrap_def)

lemma undo_after_delete:
  "undo \<lparr>todoList = tdl, lastActionState = \<lparr>Type = ActionDelete, lastAction_ID = tid,
           DeletedTodo = Some t, PreviousCompletedStatus = False\<rparr>\<rparr> =
     (\<lparr>todoList = tdl\<lparr>Todos := Todos tdl @ [t]\<rparr>, lastActionState = noAction\<rparr>,
      [MsgUndidDelete tid (ID t) (Task t)])"
  by (simp add: undo_def)

lemma found_split:
  assumes "tid \<in> ID ` set (Todos tdl)"
  shows "\<exists>xs t ys. Todos tdl = xs @ t # ys \<and> ID t = tid \<and> tid \<notin> ID ` set xs \<and>
           Delete tid tdl = (Inr t, tdl\<lparr>Todos := xs @ ys\<rparr>, [MsgDeleted tid (Task t)])"
proof -
  from assms obtain i where i: "findID tid (Todos tdl) = Some i"
    using findID_None [of tid "Todos tdl"] by (cases "findID tid (Todos tdl)") auto
  have "Todos tdl = take i (Todos tdl) @ (Todos tdl ! i) # drop (Suc i) (Todos tdl)"
    by (rule findID_split [OF i])
  moreover have "ID (Todos tdl ! i) = tid" "tid \<notin> ID ` set (take i (Todos tdl))"
    using findID_Some [OF i] by auto
  ultimately show ?thesis
    using Delete_found [OF i] by blast
qed

section \<open>Undo after Delete\<close>

text \<open>
  Claim C6. In any state of the session in which some record has identifier \<open>tid\<close>, the
  confirmed command \<^verbatim>\<open>delete tid\<close> followed at once by \<^verbatim>\<open>undo\<close> turns the list
  \<open>xs @ t # ys\<close> (\<open>t\<close> the deleted record) into \<open>xs @ ys @ [t]\<close>: the stored copy goes to the
  end, not back to its place, and it is \<open>t\<close> itself, identifier included; the counter is
  untouched and the tracker is reset. The witness is the example of the claim: after
  \<^verbatim>\<open>add A\<close>, \<^verbatim>\<open>add B\<close>, \<^verbatim>\<open>delete 1\<close>, \<^verbatim>\<open>undo\<close> the list is B (identifier 2), A (identifier 1).
\<close>

theorem undo_delete_appends:
  assumes "tid \<in> ID ` set (Todos (todoList s))"
  shows "\<exists>xs t ys s1 msgs1.
           Todos (todoList s) = xs @ t # ys \<and> ID t = tid \<and> tid \<notin> ID ` set xs \<and>
           runCommand srt ulow (CmdDelete tid True) s = (s1, msgs1) \<and>
           Todos (todoList s1) = xs @ ys \<and>
           runCommand srt ulow CmdUndo s1 =
             (\<lparr>todoList = (todoList s)\<lparr>Todos := xs @ ys @ [t]\<rparr>, lastActionState = noAction\<rparr>,
              [MsgUndidDelete tid tid (Task t)])"
proof -
  from found_split [OF assms]
  obtain xs t ys where d: "Todos (todoList s) = xs @ t # ys" "ID t = tid" "tid \<notin> ID ` set xs"
    "Delete tid (todoList s) = (Inr t, (todoList s)\<lparr>Todos := xs @ ys\<rparr>, [MsgDeleted tid (Task t)])"
    by auto
  let ?s1 = "\<lparr>todoList = (todoList s)\<lparr>Todos := xs @ ys\<rparr>,
              lastActionState = \<lparr>Type = ActionDelete, lastAction_ID = tid,
                DeletedTodo = Some t, PreviousCompletedStatus = False\<rparr>\<rparr>"
  have r1: "runCommand srt ulow (CmdDelete tid True) s = (?s1, [MsgDeleted tid (Task t)])"
    using d(4) by simp
  have r2: "runCommand srt ulow CmdUndo ?s1 =
     (\<lparr>todoList = (todoList s)\<lparr>Todos := xs @ ys @ [t]\<rparr>, lastActionState = noAction\<rparr>,
      [MsgUndidDelete tid tid (Task t)])"
    using d(2) by (simp add: undo_after_delete)
  show ?thesis
    using d(1,2,3) r1 r2 by (intro exI [of _ xs] exI [of _ t] exI [of _ ys] exI [of _ ?s1] exI) auto
qed

theorem undo_delete_appends_witness:
  "1 \<in> ID ` set (Todos (todoList
         (runInteractiveMode insertionSort (\<lambda>s. s) twoAdds (newSession NewTodoList)))) \<and>
   runInteractiveMode insertionSort (\<lambda>s. s) (twoAdds @ [CmdDelete 1 True, CmdUndo])
       (newSession NewTodoList) =
     \<lparr>todoList =
        \<lparr>Todos = [(exampleTodo 2 ''B'')\<lparr>CreatedAt := 1700000060000000000\<rparr>,
                  (exampleTodo 1 ''A'')\<lparr>CreatedAt := 1700000000000000000\<rparr>],
         NextID = 3\<rparr>,
      lastActionState = noAction\<rparr>"
  using undo_delete_appends
    [of 1 "runInteractiveMode insertionSort (\<lambda>s. s) twoAdds (newSession NewTodoList)"
        insertionSort "\<lambda>s. s"]
  by (simp add: twoAdds_def newSession_def NewTodoList_def Add_def canon_empty
      isValidPriority_def PriorityLow_def PriorityHigh_def PriorityMedium_def Let_def
      int_wrap_small exampleTodo_def Delete_def undo_def)

section \<open>The scenario with ClearCompleted and Undo\<close>

lemma scenario_run:
  "runInteractiveMode srt ulow (scenarioCommands now1 now2) (newSession NewTodoList) =
     afterComplete now1 now2"
  by (simp add: scenarioCommands_def newSession_def NewTodoList_def Add_def canon_low canon_high
      isValidPriority_def PriorityLow_def PriorityHigh_def PriorityMedium_def Let_def
      int_wrap_small Complete_def afterComplete_def buyMilk_def shipRelease_def)

lemma scenario_list:
  "listedTodos srt ulow (noOptions\<lparr>FilterStatus := ''incomplete''\<rparr>)
     (todoList (afterComplete now1 now2)) = [shipRelease now2]"
  by (simp add: listedTodos_def noOptions_def matchTodo_def canon_empty afterComplete_def
      buyMilk_def shipRelease_def)

lemma scenario_clear:
  "runCommand srt ulow (CmdClearCompleted True) (afterComplete now1 now2) =
     (afterClear now2, [MsgCleared 1])"
  by (simp add: ClearCompleted_def afterComplete_def afterClear_def buyMilk_def shipRelease_def)

lemma scenario_undo:
  "runCommand srt ulow CmdUndo (afterClear now2) =
     (\<lparr>todoList = todoList (afterClear now2), lastActionState = noAction\<rparr>,
      [MsgUndoFailed (NotFound 1)])"
  by (simp add: undo_def Uncomplete_def afterClear_def shipRelease_def)

lemma scenario_undo_again:
  "runCommand srt ulow CmdUndo \<lparr>todoList = tdl, lastActionState = noAction\<rparr> =
     (\<lparr>todoList = tdl, lastActionState = noAction\<rparr>, [MsgNoActionToUndo])"
  by (simp add: undo_def noAction_def)

text \<open>
  Claim C4, as the program runs it. The three commands lead to the state \<open>afterComplete\<close>;
  listing with status \<^verbatim>\<open>incomplete\<close> shows exactly record 2; the confirmed
  \<^verbatim>\<open>clear-completed\<close> removes record 1 and reports one removed, and leaves the tracker as
  \<^verbatim>\<open>complete 1\<close> set it. The \<^verbatim>\<open>undo\<close> that follows therefore tries to uncomplete record 1:
  it reports that the undo failed because record 1 is not found, changes no record and
  resets the tracker. Only a second \<^verbatim>\<open>undo\<close> reports that there is no action to undo.
\<close>

theorem scenario_undo_after_clear:
  "runInteractiveMode srt ulow (scenarioCommands now1 now2) (newSession NewTodoList) =
     afterComplete now1 now2 \<and>
   listedTodos srt ulow (noOptions\<lparr>FilterStatus := ''incomplete''\<rparr>)
     (todoList (afterComplete now1 now2)) = [shipRelease now2] \<and>
   runCommand srt ulow (CmdClearCompleted True) (afterComplete now1 now2) =
     (afterClear now2, [MsgCleared 1]) \<and>
   Todos (todoList (afterClear now2)) = [shipRelease now2] \<and>
   lastActionState (afterClear now2) = lastActionState (afterComplete now1 now2) \<and>
   runCommand srt ulow CmdUndo (afterClear now2) =
     (\<lparr>todoList = todoList (afterClear now2), lastActionState = noAction\<rparr>,
      [MsgUndoFailed (NotFound 1)]) \<and>
   runCommand srt ulow CmdUndo
       \<lparr>todoList = todoList (afterClear now2), lastActionState = noAction\<rparr> =
     (\<lparr>todoList = todoList (afterClear now2), lastActionState = noAction\<rparr>,
      [MsgNoActionToUndo])"
  using scenario_run scenario_list scenario_clear scenario_undo scenario_undo_again
  by (simp add: afterClear_def afterComplete_def)

theorem scenario_undo_after_clear_witness:
  "fst (runCommand insertionSort (\<lambda>s. s) (CmdClearCompleted True)
          (runInteractiveMode insertionSort (\<lambda>s. s)
             (scenarioCommands 1700000000000000000 1700000060000000000)
             (newSession NewTodoList))) =
     afterClear 1700000060000000000 \<and>
   snd (runCommand insertionSort (\<lambda>s. s) CmdUndo (afterClear 1700000060000000000)) =
     [MsgUndoFailed (NotFound 1)]"
  using scenario_undo_after_clear
    [of insertionSort "\<lambda>s. s" 1700000000000000000 1700000060000000000]
  by simp

text \<open>
  The claim as written fails on the same run: the \<^verbatim>\<open>undo\<close> after \<^verbatim>\<open>clear-completed\<close> does
  not report that there is nothing to undo.
\<close>

theorem scenario_undo_not_nothing_to_undo:
  "snd (runCommand insertionSort (\<lambda>s. s) CmdUndo
          (fst (runCommand insertionSort (\<lambda>s. s) (CmdClearCompleted True)
             (runInteractiveMode insertionSort (\<lambda>s. s)
                (scenarioCommands 1700000000000000000 1700000060000000000)
                (newSession NewTodoList))))) \<noteq> [MsgNoActionToUndo]"
  by (simp only: scenario_run scenario_clear scenario_undo fst_conv snd_conv) simp

section \<open>Identifiers and the counter\<close>

lemma idsOk_forget: "idsOk ids next deleted \<Longrightarrow> idsOk ids next None"
  by (simp add: idsOk_def)

lemma idsOk_append_next:
  "idsOk ids next deleted \<Longrightarrow> idsOk (ids @ [next]) (next + 1) None"
  unfolding idsOk_def by (auto split: option.splits)

lemma idsOk_filter:
  "idsOk (map ID ts) next deleted \<Longrightarrow> idsOk (map ID (filter P ts)) next deleted"
  by (auto simp: idsOk_def distinct_map_filter split: option.splits)

lemma idsOk_remove:
  assumes "idsOk (map ID ts) next deleted" "i < length ts"
  shows "idsOk (map ID (take i ts @ drop (Suc i) ts)) next (Some (ts ! i))"
proof -
  have ts: "ts = take i ts @ (ts ! i) # drop (Suc i) ts"
    using assms(2) by (simp add: id_take_nth_drop)
  have d: "distinct (map ID (take i ts @ (ts ! i) # drop (Suc i) ts))"
    using assms(1) ts by (simp add: idsOk_def)
  have b: "\<forall>t \<in> set (take i ts @ (ts ! i) # drop (Suc i) ts). 1 \<le> ID t \<and> ID t < next"
    using assms(1) ts by (simp add: idsOk_def)
  from d b show ?thesis
    by (auto simp: idsOk_def)
qed

lemma idsOk_restore:
  "idsOk ids next (Some d) \<Longrightarrow> idsOk (ids @ [ID d]) next None"
  by (auto simp: idsOk_def)

lemma Complete_ids:
  "map ID (Todos (fst (snd (Complete tid tdl)))) = map ID (Todos tdl) \<and>
   NextID (fst (snd (Complete tid tdl))) = NextID tdl"
proof (cases "findID tid (Todos tdl)")
  case None
  then show ?thesis by (simp add: Complete_def)
next
  case (Some i)
  then have "i < length (Todos tdl)" using findID_Some by blast
  with Some show ?thesis
    using map_field_update [of i "Todos tdl" ID "\<lambda>t. t\<lparr>Completed := True\<rparr>"]
    by (simp add: Complete_def Let_def)
qed

lemma Uncomplete_ids:
  "map ID (Todos (fst (snd (Uncomplete tid tdl)))) = map ID (Todos tdl) \<and>
   NextID (fst (snd (Uncomplete tid tdl))) = NextID tdl"
proof (cases "findID tid (Todos tdl)")
  case None
  then show ?thesis by (simp add: Uncomplete_def)
next
  case (Some i)
  then have "i < length (Todos tdl)" using findID_Some by blast
  with Some show ?thesis
    using map_field_update [of i "Todos tdl" ID "\<lambda>t. t\<lparr>Completed := False\<rparr>"]
    by (simp add: Uncomplete_def Let_def)
qed

lemma EditTask_ids:
  "map ID (Todos (fst (snd (EditTask tid newTask tdl)))) = map ID (Todos tdl) \<and>
   NextID (fst (snd (EditTask tid newTask tdl))) = NextID tdl"
proof (cases "findID tid (Todos tdl)")
  case None
  then show ?thesis by (simp add: EditTask_def)
next
  case (Some i)
  then have "i < length (Todos tdl)" using findID_Some by blast
  with Some show ?thesis
    using map_field_update [of i "Todos tdl" ID "\<lambda>t. t\<lparr>Task := newTask\<rparr>"]
    by (simp add: EditTask_def Let_def)
qed


lemma Delete_ids:
  assumes "idsOk (map ID (Todos tdl)) (NextID tdl) deleted"
  shows "case Delete tid tdl of
           (Inl err, tdl', msgs) \<Rightarrow> tdl' = tdl
         | (Inr d, tdl', msgs) \<Rightarrow>
             idsOk (map ID (Todos tdl')) (NextID tdl') (Some d) \<and> NextID tdl' = NextID tdl"
proof (cases "findID tid (Todos tdl)")
  case None
  then show ?thesis by (simp add: Delete_def)
next
  case (Some i)
  then have "i < length (Todos tdl)" using findID_Some by blast
  from idsOk_remove [OF assms this] Some show ?thesis
    by (simp add: Delete_def Let_def)
qed

lemma ClearCompleted_ids:
  assumes "idsOk (map ID (Todos tdl)) (NextID tdl) deleted"
  shows "idsOk (map ID (Todos (fst (ClearCompleted tdl)))) (NextID (fst (ClearCompleted tdl))) deleted \<and>
         NextID (fst (ClearCompleted tdl)) = NextID tdl"
  using assms idsOk_filter [OF assms, of "\<lambda>todo. \<not> Completed todo"]
  by (simp add: ClearCompleted_def Let_def)

lemma Add_ids:
  assumes "idsOk (map ID (Todos tdl)) (NextID tdl) deleted" "NextID tdl < 2 ^ 63 - 1"
  shows "idsOk (map ID (Todos (fst (Add ulow now task priority dueDate tags tdl))))
           (NextID (fst (Add ulow now task priority dueDate tags tdl))) None \<and>
         NextID (fst (Add ulow now task priority dueDate tags tdl)) = NextID tdl + 1"
proof -
  have "1 \<le> NextID tdl" using assms(1) by (simp add: idsOk_def)
  then show ?thesis
    using idsOk_append_next [OF assms(1)] assms(2)
    by (simp add: Add_def Let_def int_wrap_small)
qed

lemma undo_inv:
  assumes "sessionInv s"
  shows "sessionInv (fst (undo s)) \<and> NextID (todoList (fst (undo s))) = NextID (todoList s)"
proof (cases "Type (lastActionState s)")
  case ActionNone
  then show ?thesis
    using assms idsOk_forget by (simp add: undo_def Let_def sessionInv_def noAction_def)
next
  case ActionAdd
  show ?thesis
    using Delete_ids [of "todoList s" "DeletedTodo (lastActionState s)" "lastAction_ID (lastActionState s)"]
      assms ActionAdd idsOk_forget
    by (auto simp: undo_def Let_def sessionInv_def noAction_def split: prod.splits sum.splits)
next
  case ActionComplete
  show ?thesis
    using Uncomplete_ids [of "lastAction_ID (lastActionState s)" "todoList s"]
      assms ActionComplete idsOk_forget
    by (auto simp: undo_def Let_def sessionInv_def noAction_def split: prod.splits option.splits)
next
  case ActionDelete
  show ?thesis
    using assms ActionDelete idsOk_forget idsOk_restore
    by (auto simp: undo_def Let_def sessionInv_def noAction_def split: prod.splits option.splits)
next
  case ActionUncomplete
  show ?thesis
    using Complete_ids [of "lastAction_ID (lastActionState s)" "todoList s"]
      assms ActionUncomplete idsOk_forget
    by (auto simp: undo_def Let_def sessionInv_def noAction_def split: prod.splits option.splits)
qed


lemma runCommand_inv:
  assumes "sessionInv s" "NextID (todoList s) < 2 ^ 63 - 1"
  shows "sessionInv (fst (runCommand srt ulow c s)) \<and>
         NextID (todoList (fst (runCommand srt ulow c s))) =
           NextID (todoList s) + (if reachesAdd c then 1 else 0)"
proof (cases c)
  case (CmdAdd task priority due tags now)
  let ?dueDate = "case due of DueDateOn parsedDate \<Rightarrow> Some parsedDate | _ \<Rightarrow> None"
  from Add_ids [of "todoList s" "DeletedTodo (lastActionState s)" ulow now task
      "toCanonicalPriority ulow priority" ?dueDate tags] assms
  show ?thesis
    by (auto simp: CmdAdd sessionInv_def Let_def split: prod.splits)
next
  case (CmdEdit tid newTask)
  from EditTask_ids [of tid newTask "todoList s"] assms(1) show ?thesis
    by (auto simp: CmdEdit sessionInv_def split: prod.splits option.splits)
next
  case (CmdClearCompleted confirmed)
  from ClearCompleted_ids [of "todoList s" "DeletedTodo (lastActionState s)"] assms(1)
  show ?thesis
    by (auto simp: CmdClearCompleted sessionInv_def split: prod.splits)
next
  case (CmdSearch query)
  from assms(1) show ?thesis
    by (auto simp: CmdSearch SearchTasks_def Let_def sessionInv_def)
next
  case (CmdComplete tid)
  from Complete_ids [of tid "todoList s"] assms(1) idsOk_forget show ?thesis
    by (auto simp: CmdComplete sessionInv_def split: prod.splits option.splits)
next
  case (CmdUncomplete tid)
  from Uncomplete_ids [of tid "todoList s"] assms(1) idsOk_forget show ?thesis
    by (auto simp: CmdUncomplete sessionInv_def split: prod.splits option.splits)
next
  case (CmdDelete tid confirmed)
  from Delete_ids [of "todoList s" "DeletedTodo (lastActionState s)" tid] assms(1)
  show ?thesis
    by (auto simp: CmdDelete sessionInv_def split: prod.splits sum.splits)
next
  case CmdList
  from assms(1) show ?thesis by (simp add: CmdList)
next
  case CmdUndo
  from undo_inv [OF assms(1)] show ?thesis by (simp add: CmdUndo)
qed

lemma run_inv:
  assumes "sessionInv s" "NextID (todoList s) + int (length cmds) \<le> 2 ^ 63 - 1"
  shows "sessionInv (runInteractiveMode srt ulow cmds s) \<and>
         NextID (todoList (runInteractiveMode srt ulow cmds s)) =
           NextID (todoList s) + int (addsIn cmds)"
  using assms
proof (induction cmds arbitrary: s)
  case Nil
  then show ?case by (simp add: addsIn_def)
next
  case (Cons c cs)
  let ?s' = "fst (runCommand srt ulow c s)"
  have lt: "NextID (todoList s) < 2 ^ 63 - 1"
    using Cons.prems(2) by simp
  from runCommand_inv [OF Cons.prems(1) lt, of srt ulow c]
  have inv': "sessionInv ?s'"
    and nx: "NextID (todoList ?s') = NextID (todoList s) + (if reachesAdd c then 1 else 0)"
    by simp_all
  have "NextID (todoList ?s') + int (length cs) \<le> 2 ^ 63 - 1"
    using nx Cons.prems(2) by (simp split: if_splits)
  from Cons.IH [OF inv' this] nx show ?case
    by (simp add: addsIn_def)
qed

lemma run_append:
  "runInteractiveMode srt ulow (xs @ ys) s =
     runInteractiveMode srt ulow ys (runInteractiveMode srt ulow xs s)"
  by (induction xs arbitrary: s) simp_all

lemma newSession_inv: "sessionInv (newSession NewTodoList)"
  by (simp add: sessionInv_def newSession_def NewTodoList_def idsOk_def noAction_def)

lemma reachesAdd_appends:
  assumes "reachesAdd c"
  shows "\<exists>t. Todos (todoList (fst (runCommand srt ulow c s))) = Todos (todoList s) @ [t] \<and>
             ID t = NextID (todoList s)"
  using assms by (cases c) (auto simp: Add_def Let_def split: prod.splits)

text \<open>
  Claim C1. A session starts from the empty list with counter 1 and runs any commands
  (\<^verbatim>\<open>add\<close>, \<^verbatim>\<open>complete\<close>, \<^verbatim>\<open>uncomplete\<close>, \<^verbatim>\<open>edit\<close>, \<^verbatim>\<open>delete\<close>, \<^verbatim>\<open>clear-completed\<close>, \<^verbatim>\<open>undo\<close>,
  and \<^verbatim>\<open>search\<close> and \<^verbatim>\<open>list\<close> besides), with any arguments and any answers to the prompts.
  As long as the session is shorter than \<open>2 ^ 63 - 1\<close> commands, so that the 64-bit counter
  cannot wrap around: the identifiers in the list are pairwise different, positive and below
  the counter; the counter is 1 plus the number of adds so far, hence it never decreases
  from a prefix of the session to the whole; and the add that follows \<open>k\<close> earlier adds
  appends a record with identifier \<open>k + 1\<close>, whatever was deleted or restored in between.
\<close>

theorem identifiers_unique_and_increasing:
  assumes "int (length cmds) < 2 ^ 63 - 1"
  shows "distinct (map ID (Todos (todoList (runInteractiveMode srt ulow cmds (newSession NewTodoList))))) \<and>
    (\<forall>t \<in> set (Todos (todoList (runInteractiveMode srt ulow cmds (newSession NewTodoList)))).
        1 \<le> ID t \<and>
        ID t < NextID (todoList (runInteractiveMode srt ulow cmds (newSession NewTodoList)))) \<and>
    NextID (todoList (runInteractiveMode srt ulow cmds (newSession NewTodoList))) =
      1 + int (addsIn cmds) \<and>
    (\<forall>pre suf. cmds = pre @ suf \<longrightarrow>
        NextID (todoList (runInteractiveMode srt ulow pre (newSession NewTodoList))) \<le>
        NextID (todoList (runInteractiveMode srt ulow cmds (newSession NewTodoList)))) \<and>
    (\<forall>pre c suf. cmds = pre @ c # suf \<and> reachesAdd c \<longrightarrow>
        (\<exists>t. Todos (todoList (runInteractiveMode srt ulow (pre @ [c]) (newSession NewTodoList))) =
               Todos (todoList (runInteractiveMode srt ulow pre (newSession NewTodoList))) @ [t] \<and>
             ID t = 1 + int (addsIn pre)))"
proof -
  let ?run = "\<lambda>cs. runInteractiveMode srt ulow cs (newSession NewTodoList)"
  have start: "NextID (todoList (newSession NewTodoList)) = 1"
    by (simp add: newSession_def NewTodoList_def)
  have run: "sessionInv (?run cs) \<and> NextID (todoList (?run cs)) = 1 + int (addsIn cs)"
    if "length cs \<le> length cmds" for cs
    using run_inv [OF newSession_inv, of cs srt ulow] that assms start by simp
  have whole: "sessionInv (?run cmds)" "NextID (todoList (?run cmds)) = 1 + int (addsIn cmds)"
    using run [of cmds] by simp_all
  have mono: "NextID (todoList (?run pre)) \<le> NextID (todoList (?run cmds))"
    if "cmds = pre @ suf" for pre suf
    using run [of pre] whole(2) that by (simp add: addsIn_def)
  have nth: "\<exists>t. Todos (todoList (?run (pre @ [c]))) = Todos (todoList (?run pre)) @ [t] \<and>
                 ID t = 1 + int (addsIn pre)"
    if "cmds = pre @ c # suf" "reachesAdd c" for pre c suf
    using reachesAdd_appends [OF that(2), of srt ulow "?run pre"] run [of pre] that(1)
    by (simp add: run_append)
  from whole(1) have "distinct (map ID (Todos (todoList (?run cmds))))"
    and "\<forall>t \<in> set (Todos (todoList (?run cmds))). 1 \<le> ID t \<and> ID t < NextID (todoList (?run cmds))"
    by (auto simp: sessionInv_def idsOk_def)
  with whole(2) mono nth show ?thesis by blast
qed


theorem identifiers_unique_and_increasing_witness:
  "int (length exampleSession) < 2 ^ 63 - 1 \<and>
   map ID (Todos (todoList
     (runInteractiveMode insertionSort (\<lambda>s. s) exampleSession (newSession NewTodoList)))) = [1, 4] \<and>
   NextID (todoList
     (runInteractiveMode insertionSort (\<lambda>s. s) exampleSession (newSession NewTodoList))) = 5 \<and>
   addsIn exampleSession = 4"
proof -
  have len: "int (length exampleSession) < 2 ^ 63 - 1"
    by (simp add: exampleSession_def twoAdds_def)
  have ids: "map ID (Todos (todoList
     (runInteractiveMode insertionSort (\<lambda>s. s) exampleSession (newSession NewTodoList)))) = [1, 4]"
    by code_simp
  have n: "addsIn exampleSession = 4"
    by (simp add: addsIn_def exampleSession_def twoAdds_def)
  from identifiers_unique_and_increasing [OF len, of insertionSort "\<lambda>s. s"] len ids n
  show ?thesis by simp
qed

section \<open>Sorting\<close>

subsection \<open>The insertion sort is a sorting routine\<close>

lemma mset_bubbleLeft: "mset (bubbleLeft lessFn x ys) = add_mset x (mset ys)"
  by (induction ys) simp_all

lemma set_bubbleLeft: "set (bubbleLeft lessFn x ys) = insert x (set ys)"
  by (induction ys) auto

lemma sorted_bubbleLeft:
  assumes "transitiveOrdering lessFn"
    and "sorted_wrt (\<lambda>a b. \<not> mustPrecede lessFn a b) ys"
  shows "sorted_wrt (\<lambda>a b. \<not> mustPrecede lessFn a b) (bubbleLeft lessFn x ys)"
  using assms(2)
proof (induction ys)
  case Nil
  then show ?case by simp
next
  case (Cons y ys)
  have nt: "\<And>a b c. \<not> lessFn a b \<Longrightarrow> \<not> lessFn b c \<Longrightarrow> \<not> lessFn a c"
    using assms(1) unfolding transitiveOrdering_def by blast
  show ?case
  proof (cases "lessFn x y")
    case True
    with Cons show ?thesis
      by (auto simp: set_bubbleLeft mustPrecede_def)
  next
    case False
    have "\<not> mustPrecede lessFn x z" if "z \<in> set (y # ys)" for z
    proof (cases "z = y")
      case True
      with False show ?thesis by (simp add: mustPrecede_def)
    next
      case neq: False
      with that Cons.prems have yz: "\<not> mustPrecede lessFn y z" by auto
      show ?thesis
        unfolding mustPrecede_def using False yz nt unfolding mustPrecede_def by blast
    qed
    with False Cons.prems show ?thesis by simp
  qed
qed

lemma foldl_bubbleLeft:
  assumes "transitiveOrdering lessFn"
    and "sorted_wrt (\<lambda>a b. \<not> mustPrecede lessFn a b) acc"
  shows "sorted_wrt (\<lambda>a b. \<not> mustPrecede lessFn a b)
           (foldl (\<lambda>sortedPrefix x. bubbleLeft lessFn x sortedPrefix) acc xs) \<and>
         mset (foldl (\<lambda>sortedPrefix x. bubbleLeft lessFn x sortedPrefix) acc xs) =
           mset acc + mset xs"
  using assms(2)
proof (induction xs arbitrary: acc)
  case Nil
  then show ?case by simp
next
  case (Cons x xs)
  from Cons.IH [OF sorted_bubbleLeft [OF assms(1) Cons.prems]]
  show ?case by (simp add: mset_bubbleLeft)
qed

lemma insertionSort_sortsSlice: "sortsSlice insertionSort"
  unfolding sortsSlice_def
proof (intro allI impI)
  fix lessFn :: "'a \<Rightarrow> 'a \<Rightarrow> bool" and xs
  assume t: "transitiveOrdering lessFn"
  from foldl_bubbleLeft [OF t, of "[]" xs]
  show "mset (insertionSort lessFn xs) = mset xs \<and>
        sorted_wrt (\<lambda>a b. \<not> mustPrecede lessFn b a) (insertionSort lessFn xs)"
    by (simp add: insertionSort_def sorted_wrt_rev)
qed

subsection \<open>What a sorting routine does with the comparisons of List\<close>

lemma sortsSliceD:
  "sortsSlice srt \<Longrightarrow> transitiveOrdering lessFn \<Longrightarrow>
     mset (srt lessFn xs) = mset xs \<and>
     sorted_wrt (\<lambda>a b. \<not> mustPrecede lessFn b a) (srt lessFn xs)"
  by (simp add: sortsSlice_def)

lemma sortsSlice_key:
  fixes k :: "'a \<Rightarrow> 'k::linorder"
  assumes "sortsSlice srt"
  shows "mset (srt (\<lambda>a b. k a < k b) xs) = mset xs \<and>
         sorted (map k (srt (\<lambda>a b. k a < k b) xs))"
proof -
  let ?lt = "\<lambda>a b. k a < k b"
  have t: "transitiveOrdering ?lt"
    by (auto simp: transitiveOrdering_def)
  have e: "(\<lambda>a b. \<not> mustPrecede ?lt b a) = (\<lambda>a b. k a \<le> k b)"
    by (auto simp: mustPrecede_def fun_eq_iff)
  from sortsSliceD [OF assms t, of xs] show ?thesis
    unfolding e by (simp add: sorted_map)
qed

lemma sortsSlice_key_desc:
  fixes k :: "'a \<Rightarrow> 'k::linorder"
  assumes "sortsSlice srt"
  shows "mset (srt (\<lambda>a b. \<not> k a < k b) xs) = mset xs \<and>
         sorted (rev (map k (srt (\<lambda>a b. \<not> k a < k b) xs)))"
proof -
  let ?lt = "\<lambda>a b. \<not> k a < k b"
  have t: "transitiveOrdering ?lt"
    by (auto simp: transitiveOrdering_def)
  have e: "(\<lambda>a b. \<not> mustPrecede ?lt b a) = (\<lambda>a b. k b \<le> k a)"
    by (auto simp: mustPrecede_def fun_eq_iff)
  from sortsSliceD [OF assms t, of xs] have "mset (srt ?lt xs) = mset xs"
    and "sorted_wrt (\<lambda>a b. k b \<le> k a) (srt ?lt xs)"
    unfolding e by simp_all
  then show ?thesis
    by (simp add: sorted_wrt_rev sorted_wrt_map flip: rev_map)
qed

lemma sorted_same_mset_rev:
  fixes xs ys :: "'k::linorder list"
  assumes "sorted xs" "sorted (rev ys)" "mset xs = mset ys"
  shows "ys = rev xs"
proof -
  have "sort xs = xs" using assms(1) by (simp add: sorted_sort_id)
  moreover have "sort xs = rev ys"
    using assms(2,3) by (intro properties_for_sort) simp_all
  ultimately show ?thesis by (metis rev_rev_ident)
qed


lemma sorted_wrt_partition:
  assumes "sorted_wrt R ys" and "\<And>a b. R a b \<Longrightarrow> P b \<Longrightarrow> P a"
  shows "ys = filter P ys @ filter (\<lambda>x. \<not> P x) ys"
  using assms(1)
proof (induction ys)
  case Nil
  then show ?case by simp
next
  case (Cons y ys)
  show ?case
  proof (cases "P y")
    case True
    with Cons show ?thesis by simp
  next
    case False
    have "\<not> P z" if "z \<in> set ys" for z
      using that Cons.prems assms(2) [of y z] False by auto
    then have "filter P ys = []" "filter (\<lambda>x. \<not> P x) ys = ys"
      by (simp_all add: filter_empty_conv filter_id_conv)
    with False show ?thesis by simp
  qed
qed

lemma sortsSlice_present_first:
  fixes k :: "'a \<Rightarrow> 'k::linorder"
  assumes "sortsSlice srt"
    and r: "r = (<) \<or> r = (\<lambda>x y. y < x)"
    and lt: "lessFn = (\<lambda>a b. P a \<and> (P b \<longrightarrow> r (k a) (k b)))"
  shows "mset (srt lessFn xs) = mset xs \<and>
         srt lessFn xs = filter P (srt lessFn xs) @ filter (\<lambda>x. \<not> P x) (srt lessFn xs) \<and>
         sorted_wrt (\<lambda>x y. \<not> r y x) (map k (filter P (srt lessFn xs)))"
proof -
  have t: "transitiveOrdering lessFn"
    using r unfolding lt transitiveOrdering_def by auto
  have asym: "mustPrecede lessFn b a = lessFn b a" for a b
    using r unfolding lt mustPrecede_def by auto
  from sortsSliceD [OF assms(1) t, of xs]
  have m: "mset (srt lessFn xs) = mset xs"
    and s: "sorted_wrt (\<lambda>a b. \<not> lessFn b a) (srt lessFn xs)"
    by (simp_all add: asym)
  have part: "srt lessFn xs = filter P (srt lessFn xs) @ filter (\<lambda>x. \<not> P x) (srt lessFn xs)"
    by (rule sorted_wrt_partition [OF s]) (auto simp: lt)
  have "sorted_wrt (\<lambda>a b. \<not> lessFn b a) (filter P (srt lessFn xs))"
    by (rule sorted_wrt_filter [OF s])
  then have "sorted_wrt (\<lambda>a b. \<not> r (k b) (k a)) (filter P (srt lessFn xs))"
    by (rule sorted_wrt_mono_rel [rotated]) (auto simp: lt)
  then have "sorted_wrt (\<lambda>x y. \<not> r y x) (map k (filter P (srt lessFn xs)))"
    by (simp add: sorted_wrt_map)
  with m part show ?thesis by simp
qed

lemma matchTodo_SortOrder [simp]:
  "matchTodo ulow (options\<lparr>SortOrder := order\<rparr>) = matchTodo ulow options"
  by (simp add: matchTodo_def fun_eq_iff)

lemma lessTodo_priority:
  assumes "SortBy options = ''priority''"
  shows "lessTodo ulow options =
           (if SortOrder options = ''desc''
            then (\<lambda>a b. \<not> priorityKey ulow a < priorityKey ulow b)
            else (\<lambda>a b. priorityKey ulow a < priorityKey ulow b))"
  using assms by (simp add: lessTodo_def direction_def priorityKey_def fun_eq_iff)

lemma lessTodo_due_date:
  assumes "SortBy options = ''due_date''"
  shows "lessTodo ulow options =
           (if SortOrder options = ''desc''
            then (\<lambda>a b. hasDueDate a \<and> (hasDueDate b \<longrightarrow> dueOf b < dueOf a))
            else (\<lambda>a b. hasDueDate a \<and> (hasDueDate b \<longrightarrow> dueOf a < dueOf b)))"
  using assms
  by (auto simp: lessTodo_def hasDueDate_def dueOf_def fun_eq_iff split: option.splits)

lemma priority_order:
  "ToLower ulow PriorityHigh < ToLower ulow PriorityLow \<and>
   ToLower ulow PriorityLow < ToLower ulow PriorityMedium"
  by code_simp


subsection \<open>Sorting by due date\<close>

text \<open>
  Claim C3, as the program runs it. Let \<open>srt\<close> be a sorting routine in the sense of
  \<open>sortsSlice\<close>. For every list, every filter and both directions (\<^verbatim>\<open>desc\<close>, and any other
  value of the sort order, which the program treats as ascending), the listing by
  \<^verbatim>\<open>due_date\<close> is a rearrangement of the records that pass the filters in which all records
  with a due date come first and all records without one come last. The due dates run
  upwards in the ascending listing and downwards in the descending one, so the sequence of
  dates of the descending listing is the reverse of that of the ascending listing, while
  the undated records stay at the end. When the due dates of the listed records are
  pairwise different, the dated records themselves stand in reversed order. Records due at
  the same instant compare equal in both directions (\<^verbatim>\<open>Before\<close> and \<^verbatim>\<open>After\<close> are both false),
  and nothing is said about their order.
\<close>

theorem due_date_sort_puts_dated_first:
  assumes "sortsSlice srt" "SortBy options = ''due_date''" "order \<noteq> ''desc''"
  shows "mset (listedTodos srt ulow (options\<lparr>SortOrder := order\<rparr>) tdl) =
           mset (filter (matchTodo ulow options) (Todos tdl)) \<and>
         mset (listedTodos srt ulow (options\<lparr>SortOrder := ''desc''\<rparr>) tdl) =
           mset (filter (matchTodo ulow options) (Todos tdl)) \<and>
         listedTodos srt ulow (options\<lparr>SortOrder := order\<rparr>) tdl =
           filter hasDueDate (listedTodos srt ulow (options\<lparr>SortOrder := order\<rparr>) tdl) @
           filter (\<lambda>todo. \<not> hasDueDate todo)
             (listedTodos srt ulow (options\<lparr>SortOrder := order\<rparr>) tdl) \<and>
         listedTodos srt ulow (options\<lparr>SortOrder := ''desc''\<rparr>) tdl =
           filter hasDueDate (listedTodos srt ulow (options\<lparr>SortOrder := ''desc''\<rparr>) tdl) @
           filter (\<lambda>todo. \<not> hasDueDate todo)
             (listedTodos srt ulow (options\<lparr>SortOrder := ''desc''\<rparr>) tdl) \<and>
         sorted (map dueOf
           (filter hasDueDate (listedTodos srt ulow (options\<lparr>SortOrder := order\<rparr>) tdl))) \<and>
         sorted (rev (map dueOf
           (filter hasDueDate (listedTodos srt ulow (options\<lparr>SortOrder := ''desc''\<rparr>) tdl)))) \<and>
         map dueOf (filter hasDueDate (listedTodos srt ulow (options\<lparr>SortOrder := ''desc''\<rparr>) tdl)) =
           rev (map dueOf
             (filter hasDueDate (listedTodos srt ulow (options\<lparr>SortOrder := order\<rparr>) tdl))) \<and>
         (distinct (map dueOf (filter hasDueDate (filter (matchTodo ulow options) (Todos tdl)))) \<longrightarrow>
            filter hasDueDate (listedTodos srt ulow (options\<lparr>SortOrder := ''desc''\<rparr>) tdl) =
              rev (filter hasDueDate
                (listedTodos srt ulow (options\<lparr>SortOrder := order\<rparr>) tdl)))"
proof -
  let ?f = "filter (matchTodo ulow options) (Todos tdl)"
  let ?asc = "listedTodos srt ulow (options\<lparr>SortOrder := order\<rparr>) tdl"
  let ?desc = "listedTodos srt ulow (options\<lparr>SortOrder := ''desc''\<rparr>) tdl"
  let ?lta = "\<lambda>a b. hasDueDate a \<and> (hasDueDate b \<longrightarrow> dueOf a < dueOf b)"
  let ?ltd = "\<lambda>a b. hasDueDate a \<and> (hasDueDate b \<longrightarrow> dueOf b < dueOf a)"
  have asc: "?asc = srt ?lta ?f"
    using assms(2,3) lessTodo_due_date [of "options\<lparr>SortOrder := order\<rparr>" ulow]
    by (simp add: listedTodos_def)
  have desc: "?desc = srt ?ltd ?f"
    using assms(2) lessTodo_due_date [of "options\<lparr>SortOrder := ''desc''\<rparr>" ulow]
    by (simp add: listedTodos_def)
  from sortsSlice_present_first [OF assms(1), of "(<)" ?lta hasDueDate dueOf ?f]
  have a: "mset ?asc = mset ?f"
    "?asc = filter hasDueDate ?asc @ filter (\<lambda>todo. \<not> hasDueDate todo) ?asc"
    "sorted (map dueOf (filter hasDueDate ?asc))"
    unfolding asc by (simp_all add: not_less)
  from sortsSlice_present_first [OF assms(1), of "\<lambda>x y. y < x" ?ltd hasDueDate dueOf ?f]
  have d: "mset ?desc = mset ?f"
    "?desc = filter hasDueDate ?desc @ filter (\<lambda>todo. \<not> hasDueDate todo) ?desc"
    "sorted_wrt (\<lambda>x y. y \<le> x) (map dueOf (filter hasDueDate ?desc))"
    unfolding desc by (simp_all add: not_less)
  have dr: "sorted (rev (map dueOf (filter hasDueDate ?desc)))"
    using d(3) by (simp add: sorted_wrt_rev)
  have "mset (map dueOf (filter hasDueDate ?asc)) = mset (map dueOf (filter hasDueDate ?desc))"
    using a(1) d(1) by simp
  from sorted_same_mset_rev [OF a(3) dr this]
  have keys: "map dueOf (filter hasDueDate ?desc) = rev (map dueOf (filter hasDueDate ?asc))" .
  have records: "filter hasDueDate ?desc = rev (filter hasDueDate ?asc)"
    if dist: "distinct (map dueOf (filter hasDueDate ?f))"
  proof -
    have sa: "set (filter hasDueDate ?asc) = set (filter hasDueDate ?f)"
      using a(1) by (metis mset_eq_setD mset_filter)
    have sd: "set (filter hasDueDate ?desc) = set (filter hasDueDate ?f)"
      using d(1) by (metis mset_eq_setD mset_filter)
    have "inj_on dueOf (set (filter hasDueDate ?f))"
      using dist by (simp add: distinct_map)
    then have inj: "inj_on dueOf (set (filter hasDueDate ?desc) \<union> set (rev (filter hasDueDate ?asc)))"
      using sa sd by simp
    have "map dueOf (filter hasDueDate ?desc) = map dueOf (rev (filter hasDueDate ?asc))"
      using keys by (simp add: rev_map)
    with inj show ?thesis
      by (simp only: inj_on_map_eq_map)
  qed
  from a d(1,2) dr keys records show ?thesis by blast
qed


theorem due_date_sort_puts_dated_first_witness:
  "sortsSlice (insertionSort :: (Todo \<Rightarrow> Todo \<Rightarrow> bool) \<Rightarrow> Todo list \<Rightarrow> Todo list) \<and>
   SortBy (noOptions\<lparr>SortBy := ''due_date''\<rparr>) = ''due_date'' \<and> ''asc'' \<noteq> ''desc'' \<and>
   listedTodos insertionSort (\<lambda>s. s) (noOptions\<lparr>SortBy := ''due_date'', SortOrder := ''asc''\<rparr>)
     sortExample = [taskAHigh, taskBLow, taskCMed] \<and>
   listedTodos insertionSort (\<lambda>s. s) (noOptions\<lparr>SortBy := ''due_date'', SortOrder := ''desc''\<rparr>)
     sortExample = [taskBLow, taskAHigh, taskCMed] \<and>
   distinct (map dueOf (filter hasDueDate
     (filter (matchTodo (\<lambda>s. s) (noOptions\<lparr>SortBy := ''due_date''\<rparr>)) (Todos sortExample))))"
proof -
  have o: "SortBy (noOptions\<lparr>SortBy := ''due_date''\<rparr>) = ''due_date''" "''asc'' \<noteq> ''desc''"
    by simp_all
  have dist: "distinct (map dueOf (filter hasDueDate
     (filter (matchTodo (\<lambda>s. s) (noOptions\<lparr>SortBy := ''due_date''\<rparr>)) (Todos sortExample))))"
    by code_simp
  have a: "listedTodos insertionSort (\<lambda>s. s)
      (noOptions\<lparr>SortBy := ''due_date'', SortOrder := ''asc''\<rparr>) sortExample =
        [taskAHigh, taskBLow, taskCMed]"
    by code_simp
  have d: "listedTodos insertionSort (\<lambda>s. s)
      (noOptions\<lparr>SortBy := ''due_date'', SortOrder := ''desc''\<rparr>) sortExample =
        [taskBLow, taskAHigh, taskCMed]"
    by code_simp
  from due_date_sort_puts_dated_first [OF insertionSort_sortsSlice o, of "\<lambda>s. s" sortExample]
    insertionSort_sortsSlice o a d dist
  show ?thesis by simp
qed

text \<open>
  The claim as written fails when two records are due on the same day. With the insertion
  sort, which is a sorting routine (\<open>insertionSort_sortsSlice\<close>) and the one \<^verbatim>\<open>sort.Slice\<close>
  runs on a slice of three, both directions list the records of \<open>tieExample\<close> in the same
  order: the two dated records are not reversed.
\<close>

theorem due_date_sort_keeps_ties:
  "listedTodos insertionSort (\<lambda>s. s) (noOptions\<lparr>SortBy := ''due_date'', SortOrder := ''asc''\<rparr>)
     tieExample = [tieA, tieB, tieU] \<and>
   listedTodos insertionSort (\<lambda>s. s) (noOptions\<lparr>SortBy := ''due_date'', SortOrder := ''desc''\<rparr>)
     tieExample = [tieA, tieB, tieU] \<and>
   filter hasDueDate
     (listedTodos insertionSort (\<lambda>s. s)
        (noOptions\<lparr>SortBy := ''due_date'', SortOrder := ''desc''\<rparr>) tieExample) \<noteq>
   rev (filter hasDueDate
     (listedTodos insertionSort (\<lambda>s. s)
        (noOptions\<lparr>SortBy := ''due_date'', SortOrder := ''asc''\<rparr>) tieExample))"
proof -
  have a: "listedTodos insertionSort (\<lambda>s. s)
      (noOptions\<lparr>SortBy := ''due_date'', SortOrder := ''asc''\<rparr>) tieExample = [tieA, tieB, tieU]"
    by code_simp
  have d: "listedTodos insertionSort (\<lambda>s. s)
      (noOptions\<lparr>SortBy := ''due_date'', SortOrder := ''desc''\<rparr>) tieExample = [tieA, tieB, tieU]"
    by code_simp
  have ne: "tieA \<noteq> tieB"
    by (simp add: tieA_def tieB_def)
  have h: "hasDueDate tieA" "hasDueDate tieB" "\<not> hasDueDate tieU"
    by (simp_all add: hasDueDate_def tieA_def tieB_def tieU_def)
  show ?thesis
    unfolding a d using ne h by simp
qed

subsection \<open>Sorting by priority\<close>

text \<open>
  Claim C8. Let \<open>srt\<close> be a sorting routine in the sense of \<open>sortsSlice\<close>. For every list
  and every filter, the ascending listing by \<^verbatim>\<open>priority\<close> is a rearrangement of the
  records that pass the filters, ordered by the lowered priority string under the
  lexicographic order of byte strings; in that order \<^verbatim>\<open>high\<close> is below \<^verbatim>\<open>low\<close>, which is
  below \<^verbatim>\<open>medium\<close>. The descending listing is ordered the other way round: its sequence
  of keys is the reverse of the ascending one.
\<close>

theorem priority_sort_is_lexicographic:
  assumes "sortsSlice srt" "SortBy options = ''priority''" "order \<noteq> ''desc''"
  shows "mset (listedTodos srt ulow (options\<lparr>SortOrder := order\<rparr>) tdl) =
           mset (filter (matchTodo ulow options) (Todos tdl)) \<and>
         sorted (map (priorityKey ulow) (listedTodos srt ulow (options\<lparr>SortOrder := order\<rparr>) tdl)) \<and>
         mset (listedTodos srt ulow (options\<lparr>SortOrder := ''desc''\<rparr>) tdl) =
           mset (filter (matchTodo ulow options) (Todos tdl)) \<and>
         sorted (rev (map (priorityKey ulow)
           (listedTodos srt ulow (options\<lparr>SortOrder := ''desc''\<rparr>) tdl))) \<and>
         map (priorityKey ulow) (listedTodos srt ulow (options\<lparr>SortOrder := ''desc''\<rparr>) tdl) =
           rev (map (priorityKey ulow) (listedTodos srt ulow (options\<lparr>SortOrder := order\<rparr>) tdl)) \<and>
         ToLower ulow PriorityHigh < ToLower ulow PriorityLow \<and>
         ToLower ulow PriorityLow < ToLower ulow PriorityMedium"
proof -
  let ?f = "filter (matchTodo ulow options) (Todos tdl)"
  let ?k = "priorityKey ulow"
  let ?asc = "listedTodos srt ulow (options\<lparr>SortOrder := order\<rparr>) tdl"
  let ?desc = "listedTodos srt ulow (options\<lparr>SortOrder := ''desc''\<rparr>) tdl"
  have asc: "?asc = srt (\<lambda>a b. ?k a < ?k b) ?f"
    using assms(2,3) lessTodo_priority [of "options\<lparr>SortOrder := order\<rparr>" ulow]
    by (simp add: listedTodos_def)
  have desc: "?desc = srt (\<lambda>a b. \<not> ?k a < ?k b) ?f"
    using assms(2) lessTodo_priority [of "options\<lparr>SortOrder := ''desc''\<rparr>" ulow]
    by (simp add: listedTodos_def)
  have a: "mset ?asc = mset ?f" "sorted (map ?k ?asc)"
    using sortsSlice_key [OF assms(1), of ?k ?f] by (simp_all add: asc)
  have d: "mset ?desc = mset ?f" "sorted (rev (map ?k ?desc))"
    using sortsSlice_key_desc [OF assms(1), of ?k ?f] by (simp_all add: desc)
  have "mset (map ?k ?asc) = mset (map ?k ?desc)"
    using a(1) d(1) by simp
  from sorted_same_mset_rev [OF a(2) d(2) this]
  have "map ?k ?desc = rev (map ?k ?asc)" .
  with a d priority_order [of ulow] show ?thesis by simp
qed

theorem priority_sort_is_lexicographic_witness:
  "sortsSlice (insertionSort :: (Todo \<Rightarrow> Todo \<Rightarrow> bool) \<Rightarrow> Todo list \<Rightarrow> Todo list) \<and>
   SortBy (noOptions\<lparr>SortBy := ''priority''\<rparr>) = ''priority'' \<and> ''asc'' \<noteq> ''desc'' \<and>
   listedTodos insertionSort (\<lambda>s. s) (noOptions\<lparr>SortBy := ''priority'', SortOrder := ''asc''\<rparr>)
     sortExample = [taskAHigh, taskBLow, taskCMed] \<and>
   listedTodos insertionSort (\<lambda>s. s) (noOptions\<lparr>SortBy := ''priority'', SortOrder := ''desc''\<rparr>)
     sortExample = [taskCMed, taskBLow, taskAHigh]"
proof -
  have o: "SortBy (noOptions\<lparr>SortBy := ''priority''\<rparr>) = ''priority''" "''asc'' \<noteq> ''desc''"
    by simp_all
  have a: "listedTodos insertionSort (\<lambda>s. s)
      (noOptions\<lparr>SortBy := ''priority'', SortOrder := ''asc''\<rparr>) sortExample =
        [taskAHigh, taskBLow, taskCMed]"
    by code_simp
  have d: "listedTodos insertionSort (\<lambda>s. s)
      (noOptions\<lparr>SortBy := ''priority'', SortOrder := ''desc''\<rparr>) sortExample =
        [taskCMed, taskBLow, taskAHigh]"
    by code_simp
  from priority_sort_is_lexicographic [OF insertionSort_sortsSlice o, of "\<lambda>s. s" sortExample]
    insertionSort_sortsSlice o a d
  show ?thesis by simp
qed

end
